theory Spec2Isabelle
  imports Complex_Main "HOL-Library.Sublist"
begin

section \<open>Python strings\<close>

text \<open>
  A Python \<^verbatim>\<open>str\<close> is modelled by \<^typ>\<open>string\<close>: one \<^typ>\<open>char\<close> per code point,
  for the code points below 256. On this range the decimal digits of category Nd
  (what \<^verbatim>\<open>\d\<close> matches) are \<^verbatim>\<open>0\<close> to \<^verbatim>\<open>9\<close>, and the white space of
  \<^verbatim>\<open>str.strip()\<close>, \<^verbatim>\<open>str.isspace()\<close> and \<^verbatim>\<open>\s\<close> is the set below.
\<close>

definition is_space :: "char \<Rightarrow> bool" where
  "is_space c = (of_char c \<in> {9::nat, 10, 11, 12, 13, 28, 29, 30, 31, 32, 133, 160})"

text \<open>\<^verbatim>\<open>s.strip()\<close>\<close>

definition strip :: "string \<Rightarrow> string" where
  "strip s = rev (dropWhile is_space (rev (dropWhile is_space s)))"

text \<open>\<^verbatim>\<open>s.lower()\<close>: the letters A to Z and the Latin-1 capitals (all but the multiplication sign) move up by 32.\<close>

definition lower_char :: "char \<Rightarrow> char" where
  "lower_char c =
     (let n = (of_char c :: nat)
      in if (65 \<le> n \<and> n \<le> 90) \<or> (192 \<le> n \<and> n \<le> 222 \<and> n \<noteq> 215)
         then char_of (n + 32) else c)"

definition lower :: "string \<Rightarrow> string" where
  "lower s = map lower_char s"

text \<open>
  \<^verbatim>\<open>s.upper()\<close> on an ASCII string; the generator applies it to the tag returned by the
  classifier only.
\<close>

definition upper_char :: "char \<Rightarrow> char" where
  "upper_char c =
     (let n = (of_char c :: nat)
      in if 97 \<le> n \<and> n \<le> 122 then char_of (n - 32) else c)"

definition upper :: "string \<Rightarrow> string" where
  "upper s = map upper_char s"

text \<open>\<^verbatim>\<open>s.replace(a, new)\<close> for a single character \<open>a\<close>.\<close>

definition replace_char :: "char \<Rightarrow> string \<Rightarrow> string \<Rightarrow> string" where
  "replace_char a new s = concat (map (\<lambda>c. if c = a then new else [c]) s)"

section \<open>Regular expressions of the \<^verbatim>\<open>re\<close> module\<close>

text \<open>
  The patterns of the generator use literals, character classes, grouping, \<^verbatim>\<open>?\<close>,
  \<^verbatim>\<open>+\<close> and bounded repetition only. For such patterns the backtracking search of
  \<^verbatim>\<open>re\<close> finds a match exactly when one exists, so matching is membership in the
  language of the expression; it is decided here by derivatives.
\<close>

datatype rexp =
    Fail
  | Eps
  | Sym "char \<Rightarrow> bool"
  | Alt rexp rexp
  | Seq rexp rexp
  | Star rexp

fun nullable :: "rexp \<Rightarrow> bool" where
  "nullable Fail = False"
| "nullable Eps = True"
| "nullable (Sym p) = False"
| "nullable (Alt r s) = (nullable r \<or> nullable s)"
| "nullable (Seq r s) = (nullable r \<and> nullable s)"
| "nullable (Star r) = True"

fun alt :: "rexp \<Rightarrow> rexp \<Rightarrow> rexp" where
  "alt Fail s = s"
| "alt r Fail = r"
| "alt r s = Alt r s"

fun seq :: "rexp \<Rightarrow> rexp \<Rightarrow> rexp" where
  "seq Fail s = Fail"
| "seq r Fail = Fail"
| "seq Eps s = s"
| "seq r s = Seq r s"

fun deriv :: "char \<Rightarrow> rexp \<Rightarrow> rexp" where
  "deriv c Fail = Fail"
| "deriv c Eps = Fail"
| "deriv c (Sym p) = (if p c then Eps else Fail)"
| "deriv c (Alt r s) = alt (deriv c r) (deriv c s)"
| "deriv c (Seq r s) =
     (if nullable r then alt (seq (deriv c r) s) (deriv c s) else seq (deriv c r) s)"
| "deriv c (Star r) = seq (deriv c r) (Star r)"

fun matches :: "rexp \<Rightarrow> string \<Rightarrow> bool" where
  "matches r [] = nullable r"
| "matches r (c # cs) = matches (deriv c r) cs"

text \<open>\<^verbatim>\<open>r{n}\<close>, \<^verbatim>\<open>r{0,n}\<close>, \<^verbatim>\<open>r{m,n}\<close>, \<^verbatim>\<open>r{m,}\<close> (with \<^verbatim>\<open>r+\<close> as \<^verbatim>\<open>r{1,}\<close>) and \<^verbatim>\<open>r?\<close>.\<close>

fun exactly :: "nat \<Rightarrow> rexp \<Rightarrow> rexp" where
  "exactly 0 r = Eps"
| "exactly (Suc n) r = Seq r (exactly n r)"

fun at_most :: "nat \<Rightarrow> rexp \<Rightarrow> rexp" where
  "at_most 0 r = Eps"
| "at_most (Suc n) r = Alt Eps (Seq r (at_most n r))"

definition rep :: "nat \<Rightarrow> nat \<Rightarrow> rexp \<Rightarrow> rexp" where
  "rep m n r = Seq (exactly m r) (at_most (n - m) r)"

definition at_least :: "nat \<Rightarrow> rexp \<Rightarrow> rexp" where
  "at_least m r = Seq (exactly m r) (Star r)"

definition opt :: "rexp \<Rightarrow> rexp" where
  "opt r = Alt r Eps"

text \<open>A literal character, a class \<^verbatim>\<open>[...]\<close> given by its members, a literal string.\<close>

definition chr :: "char \<Rightarrow> rexp" where
  "chr a = Sym (\<lambda>c. c = a)"

definition one_of :: "string \<Rightarrow> rexp" where
  "one_of cs = Sym (\<lambda>c. c \<in> set cs)"

fun lit :: "string \<Rightarrow> rexp" where
  "lit [] = Eps"
| "lit (c # cs) = Seq (chr c) (lit cs)"

text \<open>
  \<^verbatim>\<open>re.compile('^' + r + '$').match(s)\<close>, as a truth value. Without the MULTILINE
  flag \<^verbatim>\<open>$\<close> holds at the end of the string and also just before a newline that is
  the last character.
\<close>

definition re_match :: "rexp \<Rightarrow> string \<Rightarrow> bool" where
  "re_match r s =
     (matches r s \<or> (s \<noteq> [] \<and> last s = CHR 0x0A \<and> matches r (butlast s)))"

subsection \<open>The patterns of \<^verbatim>\<open>STIXGenerator\<close>\<close>

definition digits :: string where
  "digits = ''0123456789''"

definition hexdigits :: string where
  "hexdigits = ''abcdefABCDEF0123456789''"

definition letters :: string where
  "letters = ''abcdefghijklmnopqrstuvwxyzABCDEFGHIJKLMNOPQRSTUVWXYZ''"

text \<open>\<^verbatim>\<open>^(?:[0-9]{1,3}\.){3}[0-9]{1,3}$\<close>\<close>

definition IPV4_PATTERN :: rexp where
  "IPV4_PATTERN =
     Seq (exactly 3 (Seq (rep 1 3 (one_of digits)) (chr CHR ''.'')))
         (rep 1 3 (one_of digits))"

text \<open>\<^verbatim>\<open>^(?:[0-9a-fA-F]{0,4}:){7}[0-9a-fA-F]{0,4}$\<close>\<close>

definition IPV6_PATTERN :: rexp where
  "IPV6_PATTERN =
     Seq (exactly 7 (Seq (rep 0 4 (one_of hexdigits)) (chr CHR '':'')))
         (rep 0 4 (one_of hexdigits))"

text \<open>\<^verbatim>\<open>^(?:[a-zA-Z0-9](?:[a-zA-Z0-9-]{0,61}[a-zA-Z0-9])?\.)+[a-zA-Z]{2,}$\<close>\<close>

definition DOMAIN_PATTERN :: rexp where
  "DOMAIN_PATTERN =
     Seq (at_least 1
            (Seq (Seq (one_of (letters @ digits))
                      (opt (Seq (rep 0 61 (one_of (letters @ digits @ ''-'')))
                                (one_of (letters @ digits)))))
                 (chr CHR ''.'')))
         (at_least 2 (one_of letters))"

text \<open>\<^verbatim>\<open>^[a-fA-F0-9]{32}$\<close>, \<^verbatim>\<open>^[a-fA-F0-9]{40}$\<close>, \<^verbatim>\<open>^[a-fA-F0-9]{64}$\<close>\<close>

definition MD5_PATTERN :: rexp where
  "MD5_PATTERN = exactly 32 (one_of hexdigits)"

definition SHA1_PATTERN :: rexp where
  "SHA1_PATTERN = exactly 40 (one_of hexdigits)"

definition SHA256_PATTERN :: rexp where
  "SHA256_PATTERN = exactly 64 (one_of hexdigits)"

text \<open>\<^verbatim>\<open>^[a-zA-Z0-9._%+-]+@[a-zA-Z0-9.-]+\.[a-zA-Z]{2,}$\<close>\<close>

definition EMAIL_PATTERN :: rexp where
  "EMAIL_PATTERN =
     Seq (at_least 1 (one_of (letters @ digits @ ''._%+-'')))
      (Seq (chr CHR ''@'')
        (Seq (at_least 1 (one_of (letters @ digits @ ''.-'')))
          (Seq (chr CHR ''.'') (at_least 2 (one_of letters)))))"

text \<open>\<^verbatim>\<open>^https?://[^\s]+$\<close>\<close>

definition URL_PATTERN :: rexp where
  "URL_PATTERN =
     Seq (lit ''http'')
      (Seq (opt (chr CHR ''s''))
        (Seq (lit ''://'') (at_least 1 (Sym (\<lambda>c. \<not> is_space c)))))"

text \<open>\<^verbatim>\<open>^T\d{4}(\.\d{3})?$\<close>\<close>

definition TECHNIQUE_PATTERN :: rexp where
  "TECHNIQUE_PATTERN =
     Seq (chr CHR ''T'')
      (Seq (exactly 4 (one_of digits))
        (opt (Seq (chr CHR ''.'') (exactly 3 (one_of digits)))))"

section \<open>The IOC classifier and the pattern synthesizer\<close>

text \<open>\<^verbatim>\<open>STIXGenerator.detect_ioc_type\<close>: \<open>None\<close> is Python's \<^verbatim>\<open>None\<close>.\<close>

definition detect_ioc_type :: "string \<Rightarrow> string option" where
  "detect_ioc_type ioc0 =
     (let ioc = strip ioc0
      in if re_match IPV4_PATTERN ioc then Some ''ipv4''
         else if re_match IPV6_PATTERN ioc then Some ''ipv6''
         else if re_match DOMAIN_PATTERN ioc then Some ''domain''
         else if re_match URL_PATTERN ioc then Some ''url''
         else if re_match EMAIL_PATTERN ioc then Some ''email''
         else if re_match MD5_PATTERN ioc then Some ''md5''
         else if re_match SHA1_PATTERN ioc then Some ''sha1''
         else if re_match SHA256_PATTERN ioc then Some ''sha256''
         else None)"

text \<open>
  \<^verbatim>\<open>STIXGenerator.create_indicator_pattern\<close>: the dictionary of the eight templates,
  and \<^verbatim>\<open>patterns.get(ioc_type, default)\<close>.
\<close>

definition patterns :: "string \<Rightarrow> (string \<times> string) list" where
  "patterns ioc =
     [(''ipv4'', ''[network-traffic:dst_ref.type = 'ipv4-addr' AND network-traffic:dst_ref.value = '' @ CHR 0x27 # ioc @ CHR 0x27 # '']''),
      (''ipv6'', ''[network-traffic:dst_ref.type = 'ipv6-addr' AND network-traffic:dst_ref.value = '' @ CHR 0x27 # ioc @ CHR 0x27 # '']''),
      (''domain'', ''[domain-name:value = '' @ CHR 0x27 # ioc @ CHR 0x27 # '']''),
      (''url'', ''[url:value = '' @ CHR 0x27 # ioc @ CHR 0x27 # '']''),
      (''email'', ''[email-addr:value = '' @ CHR 0x27 # ioc @ CHR 0x27 # '']''),
      (''md5'', ''[file:hashes.MD5 = '' @ CHR 0x27 # lower ioc @ CHR 0x27 # '']''),
      (''sha1'', ''[file:hashes.SHA-1 = '' @ CHR 0x27 # lower ioc @ CHR 0x27 # '']''),
      (''sha256'', ''[file:hashes.SHA-256 = '' @ CHR 0x27 # lower ioc @ CHR 0x27 # '']'')]"

definition create_indicator_pattern :: "string \<Rightarrow> string \<Rightarrow> string" where
  "create_indicator_pattern ioc ioc_type =
     (case map_of (patterns ioc) ioc_type of
        Some p \<Rightarrow> p
      | None \<Rightarrow> ''['' @ ioc_type @ '':value = '' @ CHR 0x27 # ioc @ CHR 0x27 # '']'')"

section \<open>Python values and exceptions\<close>

text \<open>
  The values a configuration read by \<^verbatim>\<open>json.load\<close> is made of, and \<^verbatim>\<open>datetime\<close>
  values. A dictionary is the list of its items in insertion order; its keys are distinct.
\<close>

datatype pyval =
    PNone
  | PBool bool
  | PInt int
  | PFloat rat
  | PStr string
  | PList "pyval list"
  | PDict "(string \<times> pyval) list"
  | PDatetime nat

type_synonym pydict = "(string \<times> pyval) list"

text \<open>
  An exception carries the message that \<^verbatim>\<open>str(e)\<close> returns. The first five classes
  (\<open>LibraryError\<close> stands for the exceptions of \<^verbatim>\<open>stix2\<close>) derive from
  \<^verbatim>\<open>Exception\<close>; \<^verbatim>\<open>KeyboardInterrupt\<close>, \<^verbatim>\<open>SystemExit\<close> and \<^verbatim>\<open>GeneratorExit\<close>
  derive from \<^verbatim>\<open>BaseException\<close> only, and a clause \<^verbatim>\<open>except Exception\<close> lets them
  pass.
\<close>

datatype py_exn =
    AttributeError string
  | TypeError string
  | ValueError string
  | OSError string
  | LibraryError string
  | KeyboardInterrupt string
  | SystemExit string
  | GeneratorExit string

fun exn_message :: "py_exn \<Rightarrow> string" where
  "exn_message (AttributeError m) = m"
| "exn_message (TypeError m) = m"
| "exn_message (ValueError m) = m"
| "exn_message (OSError m) = m"
| "exn_message (LibraryError m) = m"
| "exn_message (KeyboardInterrupt m) = m"
| "exn_message (SystemExit m) = m"
| "exn_message (GeneratorExit m) = m"

fun is_Exception :: "py_exn \<Rightarrow> bool" where
  "is_Exception (KeyboardInterrupt m) = False"
| "is_Exception (SystemExit m) = False"
| "is_Exception (GeneratorExit m) = False"
| "is_Exception e = True"

fun type_name :: "pyval \<Rightarrow> string" where
  "type_name PNone = ''NoneType''"
| "type_name (PBool b) = ''bool''"
| "type_name (PInt i) = ''int''"
| "type_name (PFloat q) = ''float''"
| "type_name (PStr s) = ''str''"
| "type_name (PList xs) = ''list''"
| "type_name (PDict d) = ''dict''"
| "type_name (PDatetime t) = ''datetime.datetime''"

text \<open>The messages of CPython for the three dynamic type failures the code can meet.\<close>

definition no_attribute :: "pyval \<Rightarrow> string \<Rightarrow> py_exn" where
  "no_attribute v a =
     AttributeError (CHR 0x27 # type_name v @ CHR 0x27 # '' object has no attribute ''
                     @ CHR 0x27 # a @ [CHR 0x27])"

definition not_iterable :: "pyval \<Rightarrow> py_exn" where
  "not_iterable v = TypeError (CHR 0x27 # type_name v @ CHR 0x27 # '' object is not iterable'')"

definition not_container :: "pyval \<Rightarrow> py_exn" where
  "not_container v =
     TypeError (''argument of type '' @ CHR 0x27 # type_name v @ CHR 0x27 # '' is not iterable'')"

definition not_a_string :: "pyval \<Rightarrow> py_exn" where
  "not_a_string v =
     TypeError (''expected string or bytes-like object, got '' @ CHR 0x27 # type_name v @ [CHR 0x27])"

text \<open>Truth value of a Python value, as \<^verbatim>\<open>not v\<close> tests it.\<close>

fun truthy :: "pyval \<Rightarrow> bool" where
  "truthy PNone = False"
| "truthy (PBool b) = b"
| "truthy (PInt i) = (i \<noteq> 0)"
| "truthy (PFloat q) = (q \<noteq> 0)"
| "truthy (PStr s) = (s \<noteq> [])"
| "truthy (PList xs) = (xs \<noteq> [])"
| "truthy (PDict d) = (d \<noteq> [])"
| "truthy (PDatetime t) = True"

text \<open>\<^verbatim>\<open>for x in v\<close>: the elements of a list, the characters of a string, the keys of a dictionary.\<close>

fun py_iter :: "pyval \<Rightarrow> py_exn + pyval list" where
  "py_iter (PList xs) = Inr xs"
| "py_iter (PStr s) = Inr (map (\<lambda>c. PStr [c]) s)"
| "py_iter (PDict d) = Inr (map (\<lambda>kv. PStr (fst kv)) d)"
| "py_iter v = Inl (not_iterable v)"

text \<open>\<^verbatim>\<open>k in v\<close> for a string \<open>k\<close>: a key of a dictionary, an element of a list, a substring of a string.\<close>

fun py_contains :: "string \<Rightarrow> pyval \<Rightarrow> py_exn + bool" where
  "py_contains k (PDict d) = Inr (map_of d k \<noteq> None)"
| "py_contains k (PList xs) = Inr (PStr k \<in> set xs)"
| "py_contains k (PStr s) = Inr (sublist k s)"
| "py_contains k v = Inl (not_container v)"

text \<open>\<^verbatim>\<open>d.get(k, default)\<close> on a dictionary, and as a method call on any value.\<close>

definition dict_get :: "pydict \<Rightarrow> string \<Rightarrow> pyval \<Rightarrow> pyval" where
  "dict_get d k dflt = (case map_of d k of Some v \<Rightarrow> v | None \<Rightarrow> dflt)"

fun py_get :: "pyval \<Rightarrow> string \<Rightarrow> pyval \<Rightarrow> py_exn + pyval" where
  "py_get (PDict d) k dflt = Inr (dict_get d k dflt)"
| "py_get v k dflt = Inl (no_attribute v ''get'')"

section \<open>The environment of a session\<close>

text \<open>
  What the generator takes from outside and the model does not compute:
  \<^item> \<open>check kind kwargs\<close>: the exception with which the \<^verbatim>\<open>stix2\<close> constructor of \<open>kind\<close>
    rejects the keyword arguments, \<open>None\<close> when it builds the object;
  \<^item> \<open>uuid4 n\<close>: the \<open>n\<close>-th random identifier drawn;
  \<^item> \<open>clock n\<close>: what \<^verbatim>\<open>datetime.now\<close> reads once \<open>n\<close> identifiers have been drawn;
  \<^item> \<open>fromisoformat\<close>: \<^verbatim>\<open>datetime.fromisoformat\<close>, which raises on a malformed string;
  \<^item> \<open>str_of\<close>: \<^verbatim>\<open>str(v)\<close> for a value that is not a string.
\<close>

record env =
  check :: "string \<Rightarrow> pydict \<Rightarrow> py_exn option"
  uuid4 :: "nat \<Rightarrow> string"
  clock :: "nat \<Rightarrow> nat"
  fromisoformat :: "string \<Rightarrow> py_exn + nat"
  str_of :: "pyval \<Rightarrow> string"

text \<open>
  A \<^verbatim>\<open>stix2\<close> object: its type, its identifier \<^verbatim>\<open>type--uuid\<close> and the keyword
  arguments it was built from.
\<close>

record stix_obj =
  obj_type :: string
  obj_id :: string
  props :: pydict

text \<open>
  The state of a \<^verbatim>\<open>STIXGenerator\<close>: its three attributes. Two more fields record the
  history of the session and are read by no operation but the identifier source: the
  number of identifiers drawn so far, and every object the session has had the library
  build, in the order of construction.
\<close>

record session =
  identity :: stix_obj
  objects :: "stix_obj list"
  relationships :: "stix_obj list"
  drawn :: nat
  created :: "stix_obj list"

text \<open>
  Every operation returns its result, or the exception it raised, together with the
  session as the call leaves it.
\<close>

definition new_object ::
  "env \<Rightarrow> string \<Rightarrow> pydict \<Rightarrow> session \<Rightarrow> (py_exn + stix_obj) \<times> session" where
  "new_object E kind kwargs st =
     (case check E kind kwargs of
        Some e \<Rightarrow> (Inl e, st)
      | None \<Rightarrow>
          (let obj = \<lparr>obj_type = kind, obj_id = kind @ ''--'' @ uuid4 E (drawn st),
                      props = kwargs\<rparr>
           in (Inr obj, st\<lparr>drawn := Suc (drawn st), created := created st @ [obj]\<rparr>)))"

text \<open>\<^verbatim>\<open>STIXGenerator.__init__\<close> with \<^verbatim>\<open>_create_default_identity\<close>\<close>

definition default_identity_kwargs :: pydict where
  "default_identity_kwargs =
     [(''name'', PStr ''STIX Generator''),
      (''identity_class'', PStr ''system''),
      (''description'', PStr ''Automated STIX object generator'')]"

definition new_session :: "env \<Rightarrow> stix_obj option \<Rightarrow> py_exn + session" where
  "new_session E ident =
     (case ident of
        Some i \<Rightarrow> Inr \<lparr>identity = i, objects = [], relationships = [], drawn = 0, created = []\<rparr>
      | None \<Rightarrow>
          (case check E ''identity'' default_identity_kwargs of
             Some e \<Rightarrow> Inl e
           | None \<Rightarrow>
               (let i = \<lparr>obj_type = ''identity'', obj_id = ''identity--'' @ uuid4 E 0,
                         props = default_identity_kwargs\<rparr>
                in Inr \<lparr>identity = i, objects = [], relationships = [], drawn = 1,
                        created = [i]\<rparr>)))"

section \<open>The object factory\<close>

text \<open>The options \<^verbatim>\<open>generate_indicator\<close> takes besides the IOC, with the types \<^verbatim>\<open>main\<close> gives them.\<close>

record indicator_opts =
  labels :: "string list option"
  pattern_type :: string
  valid_from :: "nat option"
  valid_until :: "nat option"
  confidence :: int
  description :: "string option"

text \<open>
  \<^verbatim>\<open>STIXGenerator.generate_indicator\<close>: \<open>Inr None\<close> is the \<^verbatim>\<open>None\<close> returned with a
  warning. The method does not touch \<^verbatim>\<open>self.objects\<close>.
\<close>

definition generate_indicator ::
  "env \<Rightarrow> session \<Rightarrow> string \<Rightarrow> indicator_opts \<Rightarrow> (py_exn + stix_obj option) \<times> session" where
  "generate_indicator E st ioc opts =
     (case detect_ioc_type ioc of
        None \<Rightarrow> (Inr None, st)
      | Some ioc_type \<Rightarrow>
          (let pattern = create_indicator_pattern ioc ioc_type;
               vfrom = (case valid_from opts of Some t \<Rightarrow> t | None \<Rightarrow> clock E (drawn st));
               indicator_name = upper ioc_type @ '': '' @ ioc;
               descr = (case description opts of
                          Some d \<Rightarrow> if d = [] then ''Indicator for '' @ ioc_type @ '' '' @ ioc else d
                        | None \<Rightarrow> ''Indicator for '' @ ioc_type @ '' '' @ ioc);
               labs = (case labels opts of
                         Some ls \<Rightarrow> if ls = [] then [''malicious-activity''] else ls
                       | None \<Rightarrow> [''malicious-activity'']);
               kwargs =
                 [(''name'', PStr indicator_name),
                  (''pattern'', PStr pattern),
                  (''pattern_type'', PStr (pattern_type opts)),
                  (''valid_from'', PDatetime vfrom),
                  (''labels'', PList (map PStr labs)),
                  (''confidence'', PInt (confidence opts)),
                  (''description'', PStr descr),
                  (''created_by_ref'', PStr (obj_id (identity st)))]
                 @ (case valid_until opts of Some t \<Rightarrow> [(''valid_until'', PDatetime t)] | None \<Rightarrow> [])
           in case new_object E ''indicator'' kwargs st of
                (Inl e, st1) \<Rightarrow> (Inl e, st1)
              | (Inr indicator, st1) \<Rightarrow> (Inr (Some indicator), st1)))"

text \<open>
  \<^verbatim>\<open>STIXGenerator.generate_indicators_from_file\<close>: the loop over the lines, then the
  method. The file is read while the loop runs. It is given by the exception \<^verbatim>\<open>open\<close>
  raises, or by the lines the iteration yields together with the exception that ends the
  reading, if any (a read or decoding error): the indicators of the lines read before
  it are appended by then.
\<close>

fun indicators_loop ::
  "env \<Rightarrow> indicator_opts \<Rightarrow> string list \<Rightarrow> stix_obj list \<Rightarrow> session
   \<Rightarrow> (py_exn + stix_obj list) \<times> session" where
  "indicators_loop E opts [] indicators st = (Inr indicators, st)"
| "indicators_loop E opts (line # rest) indicators st =
     (let ioc = strip line
      in if ioc \<noteq> [] \<and> \<not> prefix ''#'' ioc
         then (case generate_indicator E st ioc opts of
                 (Inl e, st1) \<Rightarrow> (Inl e, st1)
               | (Inr None, st1) \<Rightarrow> indicators_loop E opts rest indicators st1
               | (Inr (Some indicator), st1) \<Rightarrow>
                   indicators_loop E opts rest (indicators @ [indicator])
                     (st1\<lparr>objects := objects st1 @ [indicator]\<rparr>))
         else indicators_loop E opts rest indicators st)"

definition generate_indicators_from_file ::
  "env \<Rightarrow> session \<Rightarrow> py_exn + string list \<times> py_exn option \<Rightarrow> indicator_opts
   \<Rightarrow> (py_exn + stix_obj list) \<times> session" where
  "generate_indicators_from_file E st file opts =
     (case file of
        Inl e \<Rightarrow> (Inl e, st)
      | Inr (lines, failure) \<Rightarrow>
          (case indicators_loop E opts lines [] st of
             (Inl e, st1) \<Rightarrow> (Inl e, st1)
           | (Inr indicators, st1) \<Rightarrow>
               (case failure of
                  None \<Rightarrow> (Inr indicators, st1)
                | Some e \<Rightarrow> (Inl e, st1))))"

text \<open>\<^verbatim>\<open>STIXGenerator.generate_attack_pattern\<close>\<close>

definition generate_attack_pattern ::
  "env \<Rightarrow> session \<Rightarrow> string \<Rightarrow> string option \<Rightarrow> string option
   \<Rightarrow> (py_exn + stix_obj option) \<times> session" where
  "generate_attack_pattern E st technique_id name descr =
     (if \<not> re_match TECHNIQUE_PATTERN technique_id then (Inr None, st)
      else
        (let name1 = (case name of
                        Some n \<Rightarrow> if n = [] then ''MITRE ATT&CK Technique '' @ technique_id else n
                      | None \<Rightarrow> ''MITRE ATT&CK Technique '' @ technique_id);
             descr1 = (case descr of
                         Some d \<Rightarrow>
                           if d = []
                           then ''Attack pattern based on MITRE ATT&CK technique '' @ technique_id
                           else d
                       | None \<Rightarrow> ''Attack pattern based on MITRE ATT&CK technique '' @ technique_id);
             kwargs =
               [(''name'', PStr name1),
                (''description'', PStr descr1),
                (''external_references'',
                   PList [PDict [(''source_name'', PStr ''mitre-attack''),
                                 (''external_id'', PStr technique_id),
                                 (''url'', PStr (''https://attack.mitre.org/techniques/''
                                     @ replace_char CHR ''.'' ''/'' technique_id @ ''/''))]]),
                (''created_by_ref'', PStr (obj_id (identity st)))]
         in case new_object E ''attack-pattern'' kwargs st of
              (Inl e, st1) \<Rightarrow> (Inl e, st1)
            | (Inr attack_pattern, st1) \<Rightarrow>
                (Inr (Some attack_pattern), st1\<lparr>objects := objects st1 @ [attack_pattern]\<rparr>)))"

text \<open>The optional fields copied from a configuration: \<^verbatim>\<open>if field in config: kwargs[field] = config[field]\<close>.\<close>

fun optional_fields :: "string list \<Rightarrow> pydict \<Rightarrow> pydict" where
  "optional_fields [] config = []"
| "optional_fields (field # others) config =
     (case map_of config field of
        Some v \<Rightarrow> (field, v) # optional_fields others config
      | None \<Rightarrow> optional_fields others config)"

text \<open>\<^verbatim>\<open>STIXGenerator.generate_malware\<close>; a configuration that is no dictionary has no \<^verbatim>\<open>get\<close>.\<close>

definition generate_malware ::
  "env \<Rightarrow> session \<Rightarrow> pyval \<Rightarrow> (py_exn + stix_obj) \<times> session" where
  "generate_malware E st config =
     (case config of
        PDict cfg \<Rightarrow>
          (let kwargs =
                 [(''name'', dict_get cfg ''name'' (PStr ''Unknown Malware'')),
                  (''malware_types'', dict_get cfg ''malware_types'' (PList [PStr ''unknown''])),
                  (''is_family'', dict_get cfg ''is_family'' (PBool True)),
                  (''created_by_ref'', PStr (obj_id (identity st)))]
                 @ optional_fields
                     [''description'', ''capabilities'', ''kill_chain_phases'', ''aliases''] cfg
           in case new_object E ''malware'' kwargs st of
                (Inl e, st1) \<Rightarrow> (Inl e, st1)
              | (Inr malware, st1) \<Rightarrow> (Inr malware, st1\<lparr>objects := objects st1 @ [malware]\<rparr>))
      | _ \<Rightarrow> (Inl (no_attribute config ''get''), st))"

text \<open>The keyword arguments of a \<^verbatim>\<open>Relationship\<close>, and the two appends that record it.\<close>

definition relationship_kwargs :: "string \<Rightarrow> string \<Rightarrow> string \<Rightarrow> string \<Rightarrow> pydict" where
  "relationship_kwargs rtype source target creator =
     [(''relationship_type'', PStr rtype),
      (''source_ref'', PStr source),
      (''target_ref'', PStr target),
      (''created_by_ref'', PStr creator)]"

definition record_relationship :: "stix_obj \<Rightarrow> session \<Rightarrow> session" where
  "record_relationship rel st =
     st\<lparr>relationships := relationships st @ [rel], objects := objects st @ [rel]\<rparr>"

text \<open>
  \<^verbatim>\<open>STIXGenerator.generate_threat_actor\<close>: the loop over \<^verbatim>\<open>observed_ttps\<close>, then the
  method. \<^verbatim>\<open>TECHNIQUE_PATTERN.match\<close> raises on an element that is no string.
\<close>

fun ttps_loop ::
  "env \<Rightarrow> stix_obj \<Rightarrow> pyval list \<Rightarrow> session \<Rightarrow> (py_exn + unit) \<times> session" where
  "ttps_loop E threat_actor [] st = (Inr (), st)"
| "ttps_loop E threat_actor (ttp # rest) st =
     (case ttp of
        PStr technique_id \<Rightarrow>
          (case generate_attack_pattern E st technique_id None None of
             (Inl e, st1) \<Rightarrow> (Inl e, st1)
           | (Inr None, st1) \<Rightarrow> ttps_loop E threat_actor rest st1
           | (Inr (Some attack_pattern), st1) \<Rightarrow>
               (case new_object E ''relationship''
                       (relationship_kwargs ''uses'' (obj_id threat_actor) (obj_id attack_pattern)
                          (obj_id (identity st1))) st1 of
                  (Inl e, st2) \<Rightarrow> (Inl e, st2)
                | (Inr rel, st2) \<Rightarrow> ttps_loop E threat_actor rest (record_relationship rel st2)))
      | _ \<Rightarrow> (Inl (not_a_string ttp), st))"

definition generate_threat_actor ::
  "env \<Rightarrow> session \<Rightarrow> pyval \<Rightarrow> (py_exn + stix_obj) \<times> session" where
  "generate_threat_actor E st config =
     (case config of
        PDict cfg \<Rightarrow>
          (let kwargs =
                 [(''name'', dict_get cfg ''name'' (PStr ''Unknown Threat Actor'')),
                  (''threat_actor_types'',
                     dict_get cfg ''threat_actor_types'' (PList [PStr ''unknown''])),
                  (''created_by_ref'', PStr (obj_id (identity st)))]
                 @ optional_fields
                     [''description'', ''aliases'', ''roles'', ''goals'', ''sophistication'',
                      ''resource_level'', ''primary_motivation'', ''secondary_motivations'',
                      ''personal_motivations''] cfg
           in case new_object E ''threat-actor'' kwargs st of
                (Inl e, st1) \<Rightarrow> (Inl e, st1)
              | (Inr threat_actor, st1) \<Rightarrow>
                  (let st2 = st1\<lparr>objects := objects st1 @ [threat_actor]\<rparr>
                   in case map_of cfg ''observed_ttps'' of
                        None \<Rightarrow> (Inr threat_actor, st2)
                      | Some ttps \<Rightarrow>
                          (case py_iter ttps of
                             Inl e \<Rightarrow> (Inl e, st2)
                           | Inr ts \<Rightarrow>
                               (case ttps_loop E threat_actor ts st2 of
                                  (Inl e, st3) \<Rightarrow> (Inl e, st3)
                                | (Inr u, st3) \<Rightarrow> (Inr threat_actor, st3)))))
      | _ \<Rightarrow> (Inl (no_attribute config ''get''), st))"

text \<open>
  \<^verbatim>\<open>STIXGenerator.generate_campaign\<close>: the loop over the optional fields (the two
  timestamps are parsed when they are strings), the loop over the malware
  configurations, then the method.
\<close>

fun campaign_fields :: "env \<Rightarrow> string list \<Rightarrow> pydict \<Rightarrow> py_exn + pydict" where
  "campaign_fields E [] config = Inr []"
| "campaign_fields E (field # others) config =
     (case map_of config field of
        None \<Rightarrow> campaign_fields E others config
      | Some v \<Rightarrow>
          (case (case v of
                   PStr s \<Rightarrow>
                     if field \<in> set [''first_seen'', ''last_seen'']
                     then (case fromisoformat E (replace_char CHR ''Z'' ''+00:00'' s) of
                             Inl e \<Rightarrow> Inl e
                           | Inr t \<Rightarrow> Inr (PDatetime t))
                     else Inr v
                 | _ \<Rightarrow> Inr v) of
             Inl e \<Rightarrow> Inl e
           | Inr v1 \<Rightarrow>
               (case campaign_fields E others config of
                  Inl e \<Rightarrow> Inl e
                | Inr kw \<Rightarrow> Inr ((field, v1) # kw))))"

fun malware_loop ::
  "env \<Rightarrow> stix_obj \<Rightarrow> pyval list \<Rightarrow> session \<Rightarrow> (py_exn + unit) \<times> session" where
  "malware_loop E campaign [] st = (Inr (), st)"
| "malware_loop E campaign (malware_config # rest) st =
     (case generate_malware E st malware_config of
        (Inl e, st1) \<Rightarrow> (Inl e, st1)
      | (Inr malware, st1) \<Rightarrow>
          (case new_object E ''relationship''
                  (relationship_kwargs ''uses'' (obj_id campaign) (obj_id malware)
                     (obj_id (identity st1))) st1 of
             (Inl e, st2) \<Rightarrow> (Inl e, st2)
           | (Inr rel, st2) \<Rightarrow> malware_loop E campaign rest (record_relationship rel st2)))"

definition campaign_threat_actor ::
  "env \<Rightarrow> stix_obj \<Rightarrow> pydict \<Rightarrow> session \<Rightarrow> (py_exn + unit) \<times> session" where
  "campaign_threat_actor E campaign cfg st =
     (case map_of cfg ''threat_actor'' of
        None \<Rightarrow> (Inr (), st)
      | Some ta_config \<Rightarrow>
          (case generate_threat_actor E st ta_config of
             (Inl e, st1) \<Rightarrow> (Inl e, st1)
           | (Inr threat_actor, st1) \<Rightarrow>
               (case new_object E ''relationship''
                       (relationship_kwargs ''attributed-to'' (obj_id campaign)
                          (obj_id threat_actor) (obj_id (identity st1))) st1 of
                  (Inl e, st2) \<Rightarrow> (Inl e, st2)
                | (Inr rel, st2) \<Rightarrow> (Inr (), record_relationship rel st2))))"

definition campaign_malware ::
  "env \<Rightarrow> stix_obj \<Rightarrow> pydict \<Rightarrow> session \<Rightarrow> (py_exn + unit) \<times> session" where
  "campaign_malware E campaign cfg st =
     (case map_of cfg ''malware'' of
        None \<Rightarrow> (Inr (), st)
      | Some ms \<Rightarrow>
          (case py_iter ms of
             Inl e \<Rightarrow> (Inl e, st)
           | Inr configs \<Rightarrow> malware_loop E campaign configs st))"

definition generate_campaign ::
  "env \<Rightarrow> session \<Rightarrow> pyval \<Rightarrow> (py_exn + stix_obj) \<times> session" where
  "generate_campaign E st config =
     (case config of
        PDict cfg \<Rightarrow>
          (case campaign_fields E
                  [''description'', ''aliases'', ''first_seen'', ''last_seen'', ''objective''] cfg of
             Inl e \<Rightarrow> (Inl e, st)
           | Inr optional \<Rightarrow>
               (case new_object E ''campaign''
                       ([(''name'', dict_get cfg ''name'' (PStr ''Unknown Campaign'')),
                         (''created_by_ref'', PStr (obj_id (identity st)))] @ optional) st of
                  (Inl e, st1) \<Rightarrow> (Inl e, st1)
                | (Inr campaign, st1) \<Rightarrow>
                    (case campaign_threat_actor E campaign cfg
                            (st1\<lparr>objects := objects st1 @ [campaign]\<rparr>) of
                       (Inl e, st2) \<Rightarrow> (Inl e, st2)
                     | (Inr u, st2) \<Rightarrow>
                         (case campaign_malware E campaign cfg st2 of
                            (Inl e, st3) \<Rightarrow> (Inl e, st3)
                          | (Inr u, st3) \<Rightarrow> (Inr campaign, st3)))))
      | _ \<Rightarrow> (Inl (no_attribute config ''get''), st))"

section \<open>The graph assembler and the bundle validator\<close>

text \<open>
  \<^verbatim>\<open>STIXGenerator.create_bundle\<close>: \<^verbatim>\<open>Bundle(objects=self.objects)\<close>, with no test on
  the list. A member is handed to the library as the dictionary it serializes to.
\<close>

record stix_bundle =
  bundle_id :: string
  bundle_objects :: "stix_obj list"

text \<open>
  What \<^verbatim>\<open>json.loads(x.serialize())\<close> holds of an object and of a bundle, as far as the
  model tracks it: the type, the identifier and the keyword arguments. Following the
  constructors of \<^verbatim>\<open>stix2\<close>, a keyword argument that is \<^verbatim>\<open>None\<close> or \<^verbatim>\<open>[]\<close> is not
  set, so a bundle of no objects has no \<^verbatim>\<open>objects\<close> key.
\<close>

definition to_dict :: "stix_obj \<Rightarrow> pyval" where
  "to_dict obj =
     PDict ([(''type'', PStr (obj_type obj)), (''id'', PStr (obj_id obj))]
            @ filter (\<lambda>kv. snd kv \<noteq> PNone \<and> snd kv \<noteq> PList []) (props obj))"

definition loaded :: "stix_bundle \<Rightarrow> pydict" where
  "loaded b =
     [(''type'', PStr ''bundle''), (''id'', PStr (bundle_id b))]
     @ (if bundle_objects b = [] then []
        else [(''objects'', PList (map to_dict (bundle_objects b)))])"

definition create_bundle :: "env \<Rightarrow> session \<Rightarrow> (py_exn + stix_bundle) \<times> session" where
  "create_bundle E st =
     (case check E ''bundle'' [(''objects'', PList (map to_dict (objects st)))] of
        Some e \<Rightarrow> (Inl e, st)
      | None \<Rightarrow>
          (Inr \<lparr>bundle_id = ''bundle--'' @ uuid4 E (drawn st), bundle_objects = objects st\<rparr>,
           st\<lparr>drawn := Suc (drawn st)\<rparr>))"

text \<open>\<^verbatim>\<open>f"{v}"\<close>\<close>

definition format :: "env \<Rightarrow> pyval \<Rightarrow> string" where
  "format E v = (case v of PStr s \<Rightarrow> s | _ \<Rightarrow> str_of E v)"

text \<open>
  The body of the \<^verbatim>\<open>try\<close> block of \<^verbatim>\<open>STIXGenerator.validate_bundle\<close>, from the
  dictionary \<^verbatim>\<open>bundle_dict\<close> on: the two tests of one member, the loop over the members,
  the checks in their order. \<open>Inl\<close> is an exception leaving the block.
\<close>

definition check_object :: "env \<Rightarrow> pyval \<Rightarrow> string list \<Rightarrow> py_exn + string list" where
  "check_object E obj errors =
     (case py_contains ''type'' obj of
        Inl e \<Rightarrow> Inl e
      | Inr has_type \<Rightarrow>
          (case (if has_type then Inr errors
                 else (case py_get obj ''id'' (PStr ''unknown'') of
                         Inl e \<Rightarrow> Inl e
                       | Inr v \<Rightarrow> Inr (errors @ [''Object missing type: '' @ format E v]))) of
             Inl e \<Rightarrow> Inl e
           | Inr errors1 \<Rightarrow>
               (case py_contains ''id'' obj of
                  Inl e \<Rightarrow> Inl e
                | Inr has_id \<Rightarrow>
                    (if has_id then Inr errors1
                     else (case py_get obj ''type'' (PStr ''unknown'') of
                             Inl e \<Rightarrow> Inl e
                           | Inr v \<Rightarrow> Inr (errors1 @ [''Object missing id: '' @ format E v]))))))"

fun objects_loop :: "env \<Rightarrow> pyval list \<Rightarrow> string list \<Rightarrow> py_exn + string list" where
  "objects_loop E [] errors = Inr errors"
| "objects_loop E (obj # rest) errors =
     (case check_object E obj errors of
        Inl e \<Rightarrow> Inl e
      | Inr errors1 \<Rightarrow> objects_loop E rest errors1)"

definition validate_checks :: "env \<Rightarrow> pydict \<Rightarrow> py_exn + bool \<times> string list" where
  "validate_checks E bundle_dict =
     (let errors0 = [];
          errors1 = (if map_of bundle_dict ''type'' = None
                        \<or> map_of bundle_dict ''type'' \<noteq> Some (PStr ''bundle'')
                     then errors0 @ [''Invalid bundle type''] else errors0);
          errors2 = (if (case map_of bundle_dict ''objects'' of
                           None \<Rightarrow> True
                         | Some v \<Rightarrow> \<not> truthy v)
                     then errors1 @ [''Bundle has no objects''] else errors1)
      in case py_iter (dict_get bundle_dict ''objects'' (PList [])) of
           Inl e \<Rightarrow> Inl e
         | Inr objs \<Rightarrow>
             (case objects_loop E objs errors2 of
                Inl e \<Rightarrow> Inl e
              | Inr errors \<Rightarrow> Inr (length errors = 0, errors)))"

text \<open>
  \<^verbatim>\<open>STIXGenerator.validate_bundle\<close>. Its argument is what
  \<^verbatim>\<open>json.loads(bundle.serialize())\<close> evaluates to: a dictionary, or the exception
  that ends the \<^verbatim>\<open>try\<close> block without being raised by an operation of the checks
  (raised by the serialization, or delivered to the block from outside, as a
  \<^verbatim>\<open>KeyboardInterrupt\<close> is). The clause \<^verbatim>\<open>except Exception\<close> turns an exception of
  a class derived from \<^verbatim>\<open>Exception\<close> into a report; any other exception leaves the
  method (\<open>Inl\<close>).
\<close>

definition except_Exception :: "py_exn \<Rightarrow> py_exn + bool \<times> string list" where
  "except_Exception e = (if is_Exception e then Inr (False, [exn_message e]) else Inl e)"

definition validate_bundle :: "env \<Rightarrow> py_exn + pydict \<Rightarrow> py_exn + bool \<times> string list" where
  "validate_bundle E serialized =
     (case serialized of
        Inl e \<Rightarrow> except_Exception e
      | Inr bundle_dict \<Rightarrow>
          (case validate_checks E bundle_dict of
             Inl e \<Rightarrow> except_Exception e
           | Inr report \<Rightarrow> Inr report))"

section \<open>Sessions as sequences of calls\<close>

datatype call =
    GenerateIndicator string indicator_opts
  | GenerateIndicatorsFromFile "py_exn + string list \<times> py_exn option" indicator_opts
  | GenerateAttackPattern string "string option" "string option"
  | GenerateMalware pyval
  | GenerateThreatActor pyval
  | GenerateCampaign pyval
  | CreateBundle

text \<open>The session after a call, whether the call returned or raised.\<close>

fun after :: "env \<Rightarrow> session \<Rightarrow> call \<Rightarrow> session" where
  "after E st (GenerateIndicator ioc opts) = snd (generate_indicator E st ioc opts)"
| "after E st (GenerateIndicatorsFromFile file opts) =
     snd (generate_indicators_from_file E st file opts)"
| "after E st (GenerateAttackPattern technique_id name descr) =
     snd (generate_attack_pattern E st technique_id name descr)"
| "after E st (GenerateMalware config) = snd (generate_malware E st config)"
| "after E st (GenerateThreatActor config) = snd (generate_threat_actor E st config)"
| "after E st (GenerateCampaign config) = snd (generate_campaign E st config)"
| "after E st CreateBundle = snd (create_bundle E st)"

definition run :: "env \<Rightarrow> session \<Rightarrow> call list \<Rightarrow> session" where
  "run E st calls = foldl (after E) st calls"

section \<open>Vocabulary of the properties\<close>

text \<open>The language of a regular expression.\<close>

definition conc :: "string set \<Rightarrow> string set \<Rightarrow> string set" where
  "conc A B = {u @ v | u v. u \<in> A \<and> v \<in> B}"

inductive_set star :: "string set \<Rightarrow> string set" for A :: "string set" where
  star_empty: "[] \<in> star A"
| star_more: "u \<in> A \<Longrightarrow> v \<in> star A \<Longrightarrow> u @ v \<in> star A"

fun lang :: "rexp \<Rightarrow> string set" where
  "lang Fail = {}"
| "lang Eps = {[]}"
| "lang (Sym p) = {[c] | c. p c}"
| "lang (Alt r s) = lang r \<union> lang s"
| "lang (Seq r s) = conc (lang r) (lang s)"
| "lang (Star r) = star (lang r)"

text \<open>A group of one to three digits, and a string of \<open>n\<close> hexadecimal digits.\<close>

definition digit_group :: "string \<Rightarrow> bool" where
  "digit_group g = (1 \<le> length g \<and> length g \<le> 3 \<and> list_all (\<lambda>c. c \<in> set digits) g)"

definition hex_string :: "nat \<Rightarrow> string \<Rightarrow> bool" where
  "hex_string n h = (length h = n \<and> list_all (\<lambda>c. c \<in> set hexdigits) h)"

text \<open>The classifier as a search through the format tests in their priority order.\<close>

definition format_tests :: "(rexp \<times> string) list" where
  "format_tests =
     [(IPV4_PATTERN, ''ipv4''), (IPV6_PATTERN, ''ipv6''), (DOMAIN_PATTERN, ''domain''),
      (URL_PATTERN, ''url''), (EMAIL_PATTERN, ''email''), (MD5_PATTERN, ''md5''),
      (SHA1_PATTERN, ''sha1''), (SHA256_PATTERN, ''sha256'')]"

definition first_match :: "string \<Rightarrow> string option" where
  "first_match s = map_option snd (find (\<lambda>t. re_match (fst t) s) format_tests)"

text \<open>
  The format of a technique identifier in the words of the specification: \<^verbatim>\<open>T\<close>, four
  digits, and optionally a dot and three digits.
\<close>

definition technique_format :: "string \<Rightarrow> bool" where
  "technique_format s =
     (case s of
        [] \<Rightarrow> False
      | c # ds \<Rightarrow>
          c = CHR ''T'' \<and>
          ((length ds = 4 \<and> list_all (\<lambda>d. d \<in> set digits) ds) \<or>
           (length ds = 8 \<and> list_all (\<lambda>d. d \<in> set digits) (take 4 ds) \<and> ds ! 4 = CHR ''.''
            \<and> list_all (\<lambda>d. d \<in> set digits) (drop 5 ds))))"

text \<open>The properties of a relationship, and the relationships a call has added.\<close>

definition obj_prop :: "stix_obj \<Rightarrow> string \<Rightarrow> pyval option" where
  "obj_prop obj k = map_of (props obj) k"

definition is_relationship :: "string \<Rightarrow> string \<Rightarrow> string \<Rightarrow> stix_obj \<Rightarrow> bool" where
  "is_relationship rtype source target r =
     (obj_type r = ''relationship''
      \<and> obj_prop r ''relationship_type'' = Some (PStr rtype)
      \<and> obj_prop r ''source_ref'' = Some (PStr source)
      \<and> obj_prop r ''target_ref'' = Some (PStr target))"

definition produced :: "session \<Rightarrow> session \<Rightarrow> stix_obj list" where
  "produced st st1 = drop (length (relationships st)) (relationships st1)"

definition of_type :: "string \<Rightarrow> stix_obj list \<Rightarrow> stix_obj list" where
  "of_type rtype rels = filter (\<lambda>r. obj_prop r ''relationship_type'' = Some (PStr rtype)) rels"

text \<open>An environment whose library accepts every object, for the concrete runs.\<close>

definition demo_env :: env where
  "demo_env =
     \<lparr>check = (\<lambda>kind kwargs. None),
      uuid4 = (\<lambda>n. replicate (Suc n) CHR ''u''),
      clock = (\<lambda>n. n),
      fromisoformat = (\<lambda>s. Inr 0),
      str_of = (\<lambda>v. type_name v)\<rparr>"

definition demo_session :: session where
  "demo_session =
     \<lparr>identity = \<lparr>obj_type = ''identity'', obj_id = ''identity--u'', props = default_identity_kwargs\<rparr>,
      objects = [], relationships = [], drawn = 1,
      created = [\<lparr>obj_type = ''identity'', obj_id = ''identity--u'',
                  props = default_identity_kwargs\<rparr>]\<rparr>"

definition demo_opts :: indicator_opts where
  "demo_opts =
     \<lparr>labels = None, pattern_type = ''stix'', valid_from = None, valid_until = None,
      confidence = 75, description = None\<rparr>"

text \<open>
  How a call changes a session: the identity stays, the objects \<open>new\<close> are appended to
  the object list, those of them that are relationships are appended to the relationship
  list, and they are the relationships the session has had built meanwhile.
\<close>

definition is_rel :: "stix_obj \<Rightarrow> bool" where
  "is_rel obj = (obj_type obj = ''relationship'')"

definition extends :: "session \<Rightarrow> session \<Rightarrow> stix_obj list \<Rightarrow> bool" where
  "extends st st1 new =
     (identity st1 = identity st
      \<and> objects st1 = objects st @ new
      \<and> relationships st1 = relationships st @ filter is_rel new
      \<and> filter is_rel (created st1) = filter is_rel (created st) @ filter is_rel new)"

text \<open>
  Lower-casing of the ASCII letters, by the table of the alphabet: what \<^verbatim>\<open>str.lower\<close>
  is to do on a string of letters and digits.
\<close>

definition ascii_lower :: "char \<Rightarrow> char" where
  "ascii_lower c =
     (case map_of (zip ''ABCDEFGHIJKLMNOPQRSTUVWXYZ'' ''abcdefghijklmnopqrstuvwxyz'') c of
        Some l \<Rightarrow> l
      | None \<Rightarrow> c)"

text \<open>
  An element of \<^verbatim>\<open>observed_ttps\<close> that yields an attack pattern, and their number in
  the configuration of a threat actor.
\<close>

definition is_technique :: "pyval \<Rightarrow> bool" where
  "is_technique t = (case t of PStr s \<Rightarrow> re_match TECHNIQUE_PATTERN s | _ \<Rightarrow> False)"

definition valid_ttps :: "pydict \<Rightarrow> nat" where
  "valid_ttps cfg =
     (case map_of cfg ''observed_ttps'' of
        None \<Rightarrow> 0
      | Some v \<Rightarrow> (case py_iter v of Inl e \<Rightarrow> 0 | Inr ts \<Rightarrow> length (filter is_technique ts)))"


text \<open>
  Every relationship among \<open>new\<close> is a \<^verbatim>\<open>uses\<close> edge from \<open>source\<close>, created by the
  identity of the session.
\<close>

definition uses_from :: "session \<Rightarrow> string \<Rightarrow> stix_obj list \<Rightarrow> bool" where
  "uses_from st source new =
     (\<forall>r\<in>set new. is_rel r \<longrightarrow>
        (\<exists>target. props r = relationship_kwargs ''uses'' source target (obj_id (identity st))))"


text \<open>
  The objects the malware loop appends: each malware followed by the \<^verbatim>\<open>uses\<close> edge
  from \<open>source\<close> to it.
\<close>

fun malware_uses :: "string \<Rightarrow> string \<Rightarrow> stix_obj list \<Rightarrow> bool" where
  "malware_uses source creator [] = True"
| "malware_uses source creator [x] = False"
| "malware_uses source creator (m # u # rest) =
     (obj_type m = ''malware'' \<and> obj_type u = ''relationship''
      \<and> props u = relationship_kwargs ''uses'' source (obj_id m) creator
      \<and> malware_uses source creator rest)"


text \<open>A campaign configuration with one threat actor, of one observed technique, and two malware records.\<close>

definition demo_actor :: pydict where
  "demo_actor = [(''name'', PStr ''Actor''), (''observed_ttps'', PList [PStr ''T1055''])]"

definition demo_campaign :: pydict where
  "demo_campaign =
     [(''name'', PStr ''Operation''),
      (''threat_actor'', PDict demo_actor),
      (''malware'', PList [PDict [(''name'', PStr ''Loader'')], PDict [(''name'', PStr ''Wiper'')]])]"

text \<open>
  The members of a bundle dictionary whose \<^verbatim>\<open>objects\<close> entry is absent or a list of
  dictionaries, and the errors the validator is to report for it, in the order of the
  checks: the type tag, the object list, then each member.
\<close>

fun as_dicts :: "pyval list \<Rightarrow> pydict list option" where
  "as_dicts [] = Some []"
| "as_dicts (PDict d # xs) = map_option (\<lambda>ds. d # ds) (as_dicts xs)"
| "as_dicts (x # xs) = None"

definition members :: "pydict \<Rightarrow> pydict list option" where
  "members bundle_dict =
     (case map_of bundle_dict ''objects'' of
        None \<Rightarrow> Some []
      | Some (PList xs) \<Rightarrow> as_dicts xs
      | Some v \<Rightarrow> None)"

definition member_errors :: "env \<Rightarrow> pydict \<Rightarrow> string list" where
  "member_errors E obj =
     (if map_of obj ''type'' = None
      then [''Object missing type: '' @ format E (dict_get obj ''id'' (PStr ''unknown''))]
      else [])
     @ (if map_of obj ''id'' = None
        then [''Object missing id: '' @ format E (dict_get obj ''type'' (PStr ''unknown''))]
        else [])"

definition bundle_errors :: "env \<Rightarrow> pydict \<Rightarrow> pydict list \<Rightarrow> string list" where
  "bundle_errors E bundle_dict objs =
     (if map_of bundle_dict ''type'' \<noteq> Some (PStr ''bundle'') then [''Invalid bundle type'']
      else [])
     @ (if objs = [] then [''Bundle has no objects''] else [])
     @ concat (map (member_errors E) objs)"


section \<open>Regular expressions: the matcher decides the language\<close>

lemma conc_empty_left: "conc {[]} B = B"
  by (auto simp: conc_def)

lemma conc_empty_right: "conc A {[]} = A"
  by (auto simp: conc_def)

lemma conc_none: "conc {} B = {}" "conc A {} = {}"
  by (auto simp: conc_def)

lemma conc_member: "u \<in> A \<Longrightarrow> v \<in> B \<Longrightarrow> u @ v \<in> conc A B"
  by (auto simp: conc_def)

lemma conc_cases: "w \<in> conc A B \<Longrightarrow> \<exists>u v. w = u @ v \<and> u \<in> A \<and> v \<in> B"
  by (auto simp: conc_def)

lemma nullable_lang: "nullable r \<longleftrightarrow> [] \<in> lang r"
  by (induction r) (auto simp: conc_def intro: star.star_empty)

lemma lang_alt: "lang (alt r s) = lang r \<union> lang s"
  by (induction r s rule: alt.induct) auto

lemma lang_seq: "lang (seq r s) = conc (lang r) (lang s)"
  by (induction r s rule: seq.induct) (auto simp: conc_none conc_empty_left)

lemma star_head:
  assumes "w \<in> star A" and "w = c # x"
  shows "\<exists>u v. x = u @ v \<and> c # u \<in> A \<and> v \<in> star A"
  using assms
proof (induction arbitrary: x rule: star.induct)
  case star_empty
  then show ?case by simp
next
  case (star_more u v)
  show ?case
  proof (cases u)
    case Nil
    with star_more show ?thesis by simp
  next
    case (Cons a u1)
    with star_more.prems have "a = c" and "x = u1 @ v" by simp_all
    with Cons star_more.hyps show ?thesis by blast
  qed
qed

lemma lang_deriv: "lang (deriv c r) = {w. c # w \<in> lang r}"
proof (induction r)
  case (Seq r s)
  have "{w. c # w \<in> conc (lang r) (lang s)} =
        conc {w. c # w \<in> lang r} (lang s) \<union> (if [] \<in> lang r then {w. c # w \<in> lang s} else {})"
    by (auto simp: conc_def Cons_eq_append_conv append_eq_Cons_conv)
  with Seq show ?case
    by (auto simp: lang_alt lang_seq nullable_lang)
next
  case (Star r)
  have "{w. c # w \<in> star (lang r)} = conc {w. c # w \<in> lang r} (star (lang r))"
  proof (intro equalityI subsetI)
    fix w assume "w \<in> {w. c # w \<in> star (lang r)}"
    then have "c # w \<in> star (lang r)" by simp
    from star_head[OF this refl] show "w \<in> conc {w. c # w \<in> lang r} (star (lang r))"
      by (auto simp: conc_def)
  next
    fix w assume "w \<in> conc {w. c # w \<in> lang r} (star (lang r))"
    then obtain u v where "w = u @ v" "c # u \<in> lang r" "v \<in> star (lang r)"
      by (auto simp: conc_def)
    then have "(c # u) @ v \<in> star (lang r)" by (intro star.star_more)
    with \<open>w = u @ v\<close> show "w \<in> {w. c # w \<in> star (lang r)}" by simp
  qed
  with Star show ?case by (simp add: lang_seq)
qed (auto simp: lang_alt)

lemma matches_lang: "matches r w \<longleftrightarrow> w \<in> lang r"
  by (induction w arbitrary: r) (simp_all add: nullable_lang lang_deriv)


lemma lang_exactly_Sym:
  "lang (exactly n (Sym p)) = {w. length w = n \<and> list_all p w}"
proof (induction n)
  case 0
  then show ?case by auto
next
  case (Suc n)
  show ?case
  proof (intro equalityI subsetI)
    fix w assume "w \<in> lang (exactly (Suc n) (Sym p))"
    then obtain c v where "w = c # v" "p c" "v \<in> lang (exactly n (Sym p))"
      by (auto simp: conc_def)
    with Suc show "w \<in> {w. length w = Suc n \<and> list_all p w}" by simp
  next
    fix w assume "w \<in> {w. length w = Suc n \<and> list_all p w}"
    then obtain c v where "w = c # v" "p c" "length v = n" "list_all p v"
      by (cases w) auto
    with Suc have "[c] \<in> lang (Sym p)" "v \<in> lang (exactly n (Sym p))" by auto
    then have "[c] @ v \<in> conc (lang (Sym p)) (lang (exactly n (Sym p)))" by (rule conc_member)
    with \<open>w = c # v\<close> show "w \<in> lang (exactly (Suc n) (Sym p))" by simp
  qed
qed

lemma lang_at_most_Sym:
  "lang (at_most n (Sym p)) = {w. length w \<le> n \<and> list_all p w}"
proof (induction n)
  case 0
  then show ?case by auto
next
  case (Suc n)
  show ?case
  proof (intro equalityI subsetI)
    fix w assume "w \<in> lang (at_most (Suc n) (Sym p))"
    then consider "w = []" | c v where "w = c # v" "p c" "v \<in> lang (at_most n (Sym p))"
      by (auto simp: conc_def)
    then show "w \<in> {w. length w \<le> Suc n \<and> list_all p w}"
      using Suc by cases auto
  next
    fix w assume a: "w \<in> {w. length w \<le> Suc n \<and> list_all p w}"
    show "w \<in> lang (at_most (Suc n) (Sym p))"
    proof (cases w)
      case Nil
      then show ?thesis by simp
    next
      case (Cons c v)
      with a Suc have "[c] \<in> lang (Sym p)" "v \<in> lang (at_most n (Sym p))" by auto
      then have "[c] @ v \<in> conc (lang (Sym p)) (lang (at_most n (Sym p)))" by (rule conc_member)
      with Cons show ?thesis by simp
    qed
  qed
qed

lemma lang_rep_Sym:
  assumes "m \<le> n"
  shows "lang (rep m n (Sym p)) = {w. m \<le> length w \<and> length w \<le> n \<and> list_all p w}"
proof (intro equalityI subsetI)
  fix w assume "w \<in> lang (rep m n (Sym p))"
  then obtain u v where "w = u @ v" "u \<in> lang (exactly m (Sym p))" "v \<in> lang (at_most (n - m) (Sym p))"
    by (auto simp: rep_def conc_def)
  then show "w \<in> {w. m \<le> length w \<and> length w \<le> n \<and> list_all p w}"
    using assms by (auto simp: lang_exactly_Sym lang_at_most_Sym)
next
  fix w assume a: "w \<in> {w. m \<le> length w \<and> length w \<le> n \<and> list_all p w}"
  then have "take m w \<in> lang (exactly m (Sym p))" "drop m w \<in> lang (at_most (n - m) (Sym p))"
    by (auto simp: lang_exactly_Sym lang_at_most_Sym list_all_iff dest: in_set_takeD in_set_dropD)
  then have "take m w @ drop m w \<in> conc (lang (exactly m (Sym p))) (lang (at_most (n - m) (Sym p)))"
    by (rule conc_member)
  then show "w \<in> lang (rep m n (Sym p))" by (simp add: rep_def)
qed

lemma star_Sym: "star {[c] |c. p c} = {w. list_all p w}"
proof (intro equalityI subsetI)
  fix w assume "w \<in> star {[c] |c. p c}"
  then show "w \<in> {w. list_all p w}"
    by (induction rule: star.induct) auto
next
  fix w assume "w \<in> {w. list_all p w}"
  then have "list_all p w" by simp
  then show "w \<in> star {[c] |c. p c}"
  proof (induction w)
    case Nil
    show ?case by (rule star.star_empty)
  next
    case (Cons c v)
    then have "[c] \<in> {[c] |c. p c}" "v \<in> star {[c] |c. p c}" by auto
    then have "[c] @ v \<in> star {[c] |c. p c}" by (rule star.star_more)
    then show ?case by simp
  qed
qed

lemma lang_at_least_Sym:
  "lang (at_least m (Sym p)) = {w. m \<le> length w \<and> list_all p w}"
proof (intro equalityI subsetI)
  fix w assume "w \<in> lang (at_least m (Sym p))"
  then obtain u v where "w = u @ v" "u \<in> lang (exactly m (Sym p))" "v \<in> star {[c] |c. p c}"
    by (auto simp: at_least_def conc_def)
  then show "w \<in> {w. m \<le> length w \<and> list_all p w}"
    by (auto simp: lang_exactly_Sym star_Sym)
next
  fix w assume a: "w \<in> {w. m \<le> length w \<and> list_all p w}"
  then have "take m w \<in> lang (exactly m (Sym p))" "drop m w \<in> star {[c] |c. p c}"
    by (auto simp: lang_exactly_Sym star_Sym list_all_iff dest: in_set_takeD in_set_dropD)
  then have "take m w @ drop m w \<in> conc (lang (exactly m (Sym p))) (star {[c] |c. p c})"
    by (rule conc_member)
  then show "w \<in> lang (at_least m (Sym p))" by (simp add: at_least_def)
qed


lemma lang_lit: "lang (lit s) = {s}"
  by (induction s) (auto simp: chr_def conc_def)

lemma conc_mentions_left: "\<forall>w\<in>A. x \<in> set w \<Longrightarrow> \<forall>w\<in>conc A B. x \<in> set w"
  by (auto simp: conc_def)

lemma conc_mentions_right: "\<forall>w\<in>B. x \<in> set w \<Longrightarrow> \<forall>w\<in>conc A B. x \<in> set w"
  by (auto simp: conc_def)

lemma strip_unchanged:
  assumes "s \<noteq> []" "\<not> is_space (hd s)" "\<not> is_space (last s)"
  shows "strip s = s"
proof -
  have "dropWhile is_space s = s"
    using assms by (cases s) auto
  moreover have "dropWhile is_space (rev s) = rev s"
    using assms by (cases "rev s") (auto simp: last_rev[symmetric] hd_rev)
  ultimately show ?thesis by (simp add: strip_def)
qed

lemma strip_last: "strip s \<noteq> [] \<Longrightarrow> \<not> is_space (last (strip s))"
proof -
  assume a: "strip s \<noteq> []"
  let ?t = "dropWhile is_space (rev (dropWhile is_space s))"
  from a have "?t \<noteq> []" by (simp add: strip_def)
  then have "\<not> is_space (hd ?t)" by (rule hd_dropWhile)
  moreover have "last (strip s) = hd ?t"
    using \<open>?t \<noteq> []\<close> by (simp add: strip_def last_rev)
  ultimately show ?thesis by simp
qed

lemma re_match_strip: "re_match r (strip s) = matches r (strip s)"
proof (cases "strip s = []")
  case True
  then show ?thesis by (simp add: re_match_def)
next
  case False
  then have "\<not> is_space (last (strip s))" by (rule strip_last)
  moreover have "is_space (CHR 0x0A)" by (simp add: is_space_def)
  ultimately have "last (strip s) \<noteq> CHR 0x0A" by metis
  then show ?thesis by (simp add: re_match_def)
qed

lemma detect_first_match: "detect_ioc_type s = first_match (strip s)"
  by (simp add: detect_ioc_type_def first_match_def format_tests_def Let_def)

lemma not_an_ioc: "detect_ioc_type ''not-an-ioc'' = None"
  by code_simp


lemma digit_not_space: "c \<in> set digits \<Longrightarrow> \<not> is_space c"
  by (auto simp: digits_def is_space_def)

lemma hex_not_space: "c \<in> set hexdigits \<Longrightarrow> \<not> is_space c"
  by (auto simp: hexdigits_def is_space_def)

lemma group_dot:
  assumes "digit_group g"
  shows "g @ ''.'' \<in> lang (Seq (rep 1 3 (one_of digits)) (chr CHR ''.''))"
proof -
  have "g \<in> lang (rep 1 3 (one_of digits))"
    using assms by (simp add: one_of_def lang_rep_Sym digit_group_def)
  moreover have "''.'' \<in> lang (chr CHR ''.'')" by (simp add: chr_def)
  ultimately have "g @ ''.'' \<in> conc (lang (rep 1 3 (one_of digits))) (lang (chr CHR ''.''))"
    by (rule conc_member)
  then show ?thesis by simp
qed

lemma dotted_quad_lang:
  assumes "digit_group a" "digit_group b" "digit_group c" "digit_group d"
  shows "a @ ''.'' @ b @ ''.'' @ c @ ''.'' @ d \<in> lang IPV4_PATTERN"
proof -
  let ?G = "Seq (rep 1 3 (one_of digits)) (chr CHR ''.'')"
  have "[] \<in> lang (exactly 0 ?G)" by simp
  with group_dot[OF assms(3)] have "(c @ ''.'') @ [] \<in> conc (lang ?G) (lang (exactly 0 ?G))"
    by (rule conc_member)
  then have "c @ ''.'' \<in> lang (exactly 1 ?G)" by simp
  with group_dot[OF assms(2)] have "(b @ ''.'') @ (c @ ''.'') \<in> conc (lang ?G) (lang (exactly 1 ?G))"
    by (rule conc_member)
  then have "(b @ ''.'') @ (c @ ''.'') \<in> lang (exactly (Suc 1) ?G)"
    by (simp only: exactly.simps lang.simps)
  with group_dot[OF assms(1)]
  have "(a @ ''.'') @ ((b @ ''.'') @ (c @ ''.'')) \<in> conc (lang ?G) (lang (exactly (Suc 1) ?G))"
    by (rule conc_member)
  then have three: "(a @ ''.'') @ ((b @ ''.'') @ (c @ ''.'')) \<in> lang (exactly 3 ?G)"
    by (simp only: exactly.simps lang.simps numeral_3_eq_3 One_nat_def)
  have "d \<in> lang (rep 1 3 (one_of digits))"
    using assms(4) by (simp add: one_of_def lang_rep_Sym digit_group_def)
  with three have "((a @ ''.'') @ ((b @ ''.'') @ (c @ ''.''))) @ d
      \<in> conc (lang (exactly 3 ?G)) (lang (rep 1 3 (one_of digits)))"
    by (rule conc_member)
  then show ?thesis by (simp add: IPV4_PATTERN_def)
qed

lemma digit_group_ends:
  assumes "digit_group g"
  shows "g \<noteq> []" "\<not> is_space (hd g)" "\<not> is_space (last g)"
proof -
  from assms show "g \<noteq> []" by (auto simp: digit_group_def)
  with assms have "hd g \<in> set digits" "last g \<in> set digits"
    by (auto simp: digit_group_def list_all_iff)
  then show "\<not> is_space (hd g)" "\<not> is_space (last g)"
    by (auto dest: digit_not_space)
qed

lemma dotted_quad_ipv4:
  assumes "digit_group a" "digit_group b" "digit_group c" "digit_group d"
  shows "detect_ioc_type (a @ ''.'' @ b @ ''.'' @ c @ ''.'' @ d) = Some ''ipv4''"
proof -
  let ?s = "a @ ''.'' @ b @ ''.'' @ c @ ''.'' @ d"
  have "?s \<noteq> []" "hd ?s = hd a" "last ?s = last d"
    using digit_group_ends(1)[OF assms(1)] digit_group_ends(1)[OF assms(4)] by simp_all
  then have "strip ?s = ?s"
    using digit_group_ends[OF assms(1)] digit_group_ends[OF assms(4)]
    by (intro strip_unchanged) simp_all
  moreover have "matches IPV4_PATTERN ?s"
    using dotted_quad_lang[OF assms] by (simp add: matches_lang)
  ultimately show ?thesis
    by (simp add: detect_ioc_type_def re_match_def)
qed

lemma ipv4_mentions_dot: "\<forall>w\<in>lang IPV4_PATTERN. CHR ''.'' \<in> set w"
proof -
  let ?G = "Seq (rep 1 3 (one_of digits)) (chr CHR ''.'')"
  have "\<forall>w\<in>lang ?G. CHR ''.'' \<in> set w"
    unfolding lang.simps by (rule conc_mentions_right) (simp add: chr_def)
  then have "\<forall>w\<in>lang (exactly 3 ?G). CHR ''.'' \<in> set w"
    unfolding numeral_3_eq_3 exactly.simps lang.simps by (rule conc_mentions_left)
  then show ?thesis
    unfolding IPV4_PATTERN_def lang.simps by (rule conc_mentions_left)
qed

lemma ipv6_mentions_colon: "\<forall>w\<in>lang IPV6_PATTERN. CHR '':'' \<in> set w"
proof -
  let ?G = "Seq (rep 0 4 (one_of hexdigits)) (chr CHR '':'')"
  have "\<forall>w\<in>lang ?G. CHR '':'' \<in> set w"
    unfolding lang.simps by (rule conc_mentions_right) (simp add: chr_def)
  then have "\<forall>w\<in>lang (exactly (Suc 6) ?G). CHR '':'' \<in> set w"
    unfolding exactly.simps lang.simps by (rule conc_mentions_left)
  then have "\<forall>w\<in>lang (exactly 7 ?G). CHR '':'' \<in> set w"
    by simp
  then show ?thesis
    unfolding IPV6_PATTERN_def lang.simps by (rule conc_mentions_left)
qed

lemma domain_mentions_dot: "\<forall>w\<in>lang DOMAIN_PATTERN. CHR ''.'' \<in> set w"
proof -
  let ?L = "Seq (Seq (one_of (letters @ digits))
                      (opt (Seq (rep 0 61 (one_of (letters @ digits @ ''-'')))
                                (one_of (letters @ digits)))))
                 (chr CHR ''.'')"
  have "\<forall>w\<in>lang ?L. CHR ''.'' \<in> set w"
    unfolding lang.simps by (rule conc_mentions_right) (simp add: chr_def)
  then have "\<forall>w\<in>lang (exactly (Suc 0) ?L). CHR ''.'' \<in> set w"
    unfolding exactly.simps lang.simps by (rule conc_mentions_left)
  then have "\<forall>w\<in>lang (at_least 1 ?L). CHR ''.'' \<in> set w"
    unfolding at_least_def lang.simps One_nat_def by (rule conc_mentions_left)
  then show ?thesis
    unfolding DOMAIN_PATTERN_def lang.simps by (rule conc_mentions_left)
qed

lemma url_mentions_colon: "\<forall>w\<in>lang URL_PATTERN. CHR '':'' \<in> set w"
proof -
  have "\<forall>w\<in>lang (lit ''://''). CHR '':'' \<in> set w"
    unfolding lang_lit by simp
  then have "\<forall>w\<in>lang (Seq (lit ''://'') (at_least 1 (Sym (\<lambda>c. \<not> is_space c)))). CHR '':'' \<in> set w"
    unfolding lang.simps(5) by (rule conc_mentions_left)
  then have "\<forall>w\<in>lang (Seq (opt (chr CHR ''s''))
       (Seq (lit ''://'') (at_least 1 (Sym (\<lambda>c. \<not> is_space c))))). CHR '':'' \<in> set w"
    unfolding lang.simps(5) by (rule conc_mentions_right)
  then show ?thesis
    unfolding URL_PATTERN_def lang.simps(5) by (rule conc_mentions_right)
qed

lemma email_mentions_at: "\<forall>w\<in>lang EMAIL_PATTERN. CHR ''@'' \<in> set w"
proof -
  let ?tail = "Seq (at_least 1 (one_of (letters @ digits @ ''.-'')))
          (Seq (chr CHR ''.'') (at_least 2 (one_of letters)))"
  have "\<forall>w\<in>lang (chr CHR ''@''). CHR ''@'' \<in> set w"
    by (simp add: chr_def)
  then have "\<forall>w\<in>lang (Seq (chr CHR ''@'') ?tail). CHR ''@'' \<in> set w"
    unfolding lang.simps(5) by (rule conc_mentions_left)
  then show ?thesis
    unfolding EMAIL_PATTERN_def lang.simps(5) by (rule conc_mentions_right)
qed

lemma hex_string_plain:
  assumes "hex_string n h" "0 < n"
  shows "strip h = h" "CHR ''.'' \<notin> set h" "CHR '':'' \<notin> set h" "CHR ''@'' \<notin> set h"
proof -
  from assms have len: "length h = n" and hex: "\<forall>c\<in>set h. c \<in> set hexdigits"
    by (simp_all add: hex_string_def list_all_iff)
  from len assms(2) have ne: "h \<noteq> []" by auto
  with hex have "hd h \<in> set hexdigits" "last h \<in> set hexdigits" by simp_all
  then have "\<not> is_space (hd h)" "\<not> is_space (last h)" by (auto dest: hex_not_space)
  with ne show "strip h = h" by (rule strip_unchanged)
  have "CHR ''.'' \<notin> set hexdigits" "CHR '':'' \<notin> set hexdigits" "CHR ''@'' \<notin> set hexdigits"
    by (simp_all add: hexdigits_def)
  with hex show "CHR ''.'' \<notin> set h" "CHR '':'' \<notin> set h" "CHR ''@'' \<notin> set h"
    by blast+
qed


lemma hex_string_lengths:
  assumes "hex_string n h"
  shows "h \<in> lang (exactly m (one_of hexdigits)) \<longleftrightarrow> n = m"
  using assms unfolding one_of_def lang_exactly_Sym hex_string_def by auto

lemma hex_string_detect:
  assumes "hex_string n h" "0 < n"
  shows "detect_ioc_type h =
     (if n = 32 then Some ''md5'' else if n = 40 then Some ''sha1''
      else if n = 64 then Some ''sha256'' else None)"
proof -
  note plain = hex_string_plain[OF assms]
  have m: "re_match r h = (h \<in> lang r)" for r
    using re_match_strip[of r h] by (simp only: plain(1) matches_lang)
  have "h \<notin> lang IPV4_PATTERN"
    using ipv4_mentions_dot plain(2) by blast
  moreover have "h \<notin> lang IPV6_PATTERN"
    using ipv6_mentions_colon plain(3) by blast
  moreover have "h \<notin> lang DOMAIN_PATTERN"
    using domain_mentions_dot plain(2) by blast
  moreover have "h \<notin> lang URL_PATTERN"
    using url_mentions_colon plain(3) by blast
  moreover have "h \<notin> lang EMAIL_PATTERN"
    using email_mentions_at plain(4) by blast
  moreover have "h \<in> lang MD5_PATTERN \<longleftrightarrow> n = 32" "h \<in> lang SHA1_PATTERN \<longleftrightarrow> n = 40"
    "h \<in> lang SHA256_PATTERN \<longleftrightarrow> n = 64"
    unfolding MD5_PATTERN_def SHA1_PATTERN_def SHA256_PATTERN_def
    by (rule hex_string_lengths[OF assms(1)])+
  ultimately show ?thesis
    unfolding detect_ioc_type_def Let_def plain(1) m by simp
qed

section \<open>The classifier\<close>

text \<open>
  Claim C1. The classifier answers with one of the eight tags or with \<open>None\<close>, and has
  no failing branch. Its answer is that of the first format test, in the order ipv4,
  ipv6, domain, url, email, md5, sha1, sha256, that the trimmed string passes. Every
  dotted quad of four groups of one to three digits is classified ipv4, every string of
  64 hexadecimal digits sha256, and \<^verbatim>\<open>not-an-ioc\<close> is not classified.
\<close>

theorem detect_ioc_type_classifies:
  "detect_ioc_type s = first_match (strip s)
   \<and> detect_ioc_type s \<in> {None, Some ''ipv4'', Some ''ipv6'', Some ''domain'', Some ''url'',
        Some ''email'', Some ''md5'', Some ''sha1'', Some ''sha256''}
   \<and> (digit_group a \<and> digit_group b \<and> digit_group c \<and> digit_group d
        \<longrightarrow> detect_ioc_type (a @ ''.'' @ b @ ''.'' @ c @ ''.'' @ d) = Some ''ipv4'')
   \<and> (hex_string 64 h \<longrightarrow> detect_ioc_type h = Some ''sha256'')
   \<and> detect_ioc_type ''not-an-ioc'' = None"
proof -
  have "detect_ioc_type s \<in> {None, Some ''ipv4'', Some ''ipv6'', Some ''domain'', Some ''url'',
        Some ''email'', Some ''md5'', Some ''sha1'', Some ''sha256''}"
    unfolding detect_ioc_type_def Let_def by simp
  moreover have "hex_string 64 h \<longrightarrow> detect_ioc_type h = Some ''sha256''"
    using hex_string_detect[of 64 h] by simp
  ultimately show ?thesis
    using detect_first_match[of s] dotted_quad_ipv4[of a b c d] not_an_ioc by blast
qed

theorem detect_ioc_type_classifies_witness:
  "digit_group ''192'' \<and> digit_group ''0'' \<and> digit_group ''2'' \<and> digit_group ''1''
   \<and> hex_string 64 (replicate 64 CHR ''a'')
   \<and> detect_ioc_type ''192.0.2.1'' = Some ''ipv4''
   \<and> detect_ioc_type (replicate 64 CHR ''a'') = Some ''sha256''
   \<and> detect_ioc_type ''  192.0.2.1 '' = first_match ''192.0.2.1''"
proof -
  have g: "digit_group ''192''" "digit_group ''0''" "digit_group ''2''" "digit_group ''1''"
    by (simp_all add: digit_group_def digits_def)
  have h: "hex_string 64 (replicate 64 CHR ''a'')"
    by (simp add: hex_string_def hexdigits_def list_all_iff)
  have s: "strip ''  192.0.2.1 '' = ''192.0.2.1''"
    by (simp add: strip_def is_space_def)
  show ?thesis
    using detect_ioc_type_classifies[of "''  192.0.2.1 ''" "''192''" "''0''" "''2''" "''1''"
        "replicate 64 CHR ''a''"] g h s
    by simp
qed

section \<open>Effects of the generators on the session\<close>

lemma extends_refl: "extends st st []"
  by (simp add: extends_def)

lemma extends_trans: "extends st st1 xs \<Longrightarrow> extends st1 st2 ys \<Longrightarrow> extends st st2 (xs @ ys)"
  by (simp add: extends_def)

lemma new_object_Inl: "new_object E kind kwargs st = (Inl e, st1) \<Longrightarrow> st1 = st"
  by (cases "check E kind kwargs") (simp_all add: new_object_def Let_def)

lemma new_object_Inr:
  assumes "new_object E kind kwargs st = (Inr obj, st1)"
  shows "obj_type obj = kind" "props obj = kwargs"
    "obj_id obj = kind @ ''--'' @ uuid4 E (drawn st)"
    "st1 = st\<lparr>drawn := Suc (drawn st), created := created st @ [obj]\<rparr>"
  using assms by (cases "check E kind kwargs"; auto simp: new_object_def Let_def)+

lemma new_object_extends:
  "kind \<noteq> ''relationship'' \<Longrightarrow> new_object E kind kwargs st = (r, st1) \<Longrightarrow> extends st st1 []"
  by (cases "check E kind kwargs") (auto simp: new_object_def Let_def extends_def is_rel_def)

lemma new_relationship_extends:
  assumes "new_object E ''relationship'' kwargs st = (Inr rel, st1)"
  shows "extends st (record_relationship rel st1) [rel]"
  using new_object_Inr(1,4)[OF assms]
  by (simp add: extends_def record_relationship_def is_rel_def)

lemma append_object_extends:
  "obj_type obj \<noteq> ''relationship'' \<Longrightarrow> extends st (st\<lparr>objects := objects st @ [obj]\<rparr>) [obj]"
  by (simp add: extends_def is_rel_def)

lemma generate_indicator_result:
  assumes "generate_indicator E st ioc opts = (r, st1)"
  shows "extends st st1 []"
    and "r = Inr (Some ind) \<Longrightarrow> obj_type ind = ''indicator''"
proof -
  show "extends st st1 []"
  proof (cases "detect_ioc_type ioc")
    case None
    with assms show ?thesis by (simp add: generate_indicator_def extends_refl)
  next
    case (Some t)
    with assms obtain kw r0 where n: "new_object E ''indicator'' kw st = (r0, st1)"
      unfolding generate_indicator_def Let_def
      by (auto split: prod.splits sum.splits)
    then show ?thesis by (rule new_object_extends[rotated]) simp
  qed
  show "obj_type ind = ''indicator''" if "r = Inr (Some ind)"
  proof (cases "detect_ioc_type ioc")
    case None
    with assms that show ?thesis by (simp add: generate_indicator_def)
  next
    case (Some t)
    with assms that obtain kw where n: "new_object E ''indicator'' kw st = (Inr ind, st1)"
      unfolding generate_indicator_def Let_def
      by (auto split: prod.splits sum.splits)
    then show ?thesis by (rule new_object_Inr)
  qed
qed


lemma generate_attack_pattern_None:
  "generate_attack_pattern E st tid name descr = (Inr None, st1)
   \<longleftrightarrow> \<not> re_match TECHNIQUE_PATTERN tid \<and> st1 = st"
  unfolding generate_attack_pattern_def Let_def
  by (auto split: prod.splits sum.splits)

lemma generate_attack_pattern_Inl:
  assumes "generate_attack_pattern E st tid name descr = (Inl e, st1)"
  shows "st1 = st"
proof -
  from assms obtain kw where "new_object E ''attack-pattern'' kw st = (Inl e, st1)"
    unfolding generate_attack_pattern_def Let_def
    by (auto split: prod.splits sum.splits if_splits)
  then show ?thesis by (rule new_object_Inl)
qed

lemma generate_attack_pattern_Some:
  assumes "generate_attack_pattern E st tid name descr = (Inr (Some ap), st1)"
  shows "re_match TECHNIQUE_PATTERN tid" "obj_type ap = ''attack-pattern''"
    "extends st st1 [ap]"
    "\<exists>url. obj_prop ap ''external_references'' =
        Some (PList [PDict [(''source_name'', PStr ''mitre-attack''),
                            (''external_id'', PStr tid), (''url'', PStr url)]])"
proof -
  from assms show m: "re_match TECHNIQUE_PATTERN tid"
    unfolding generate_attack_pattern_def by (auto split: if_splits)
  from assms m obtain kw st0 where
    n: "new_object E ''attack-pattern'' kw st = (Inr ap, st0)"
    and st1: "st1 = st0\<lparr>objects := objects st0 @ [ap]\<rparr>"
    and kw: "\<exists>nm ds url. kw = [(''name'', PStr nm), (''description'', PStr ds),
          (''external_references'',
             PList [PDict [(''source_name'', PStr ''mitre-attack''),
                           (''external_id'', PStr tid), (''url'', PStr url)]]),
          (''created_by_ref'', PStr (obj_id (identity st)))]"
    unfolding generate_attack_pattern_def Let_def
    by (auto split: prod.splits sum.splits)
  from new_object_Inr[OF n] show "obj_type ap = ''attack-pattern''" by simp
  from new_object_Inr[OF n] st1 show "extends st st1 [ap]"
    by (simp add: extends_def is_rel_def)
  from new_object_Inr(2)[OF n] kw
  show "\<exists>url. obj_prop ap ''external_references'' =
        Some (PList [PDict [(''source_name'', PStr ''mitre-attack''),
                            (''external_id'', PStr tid), (''url'', PStr url)]])"
    by (auto simp: obj_prop_def)
qed

lemma generate_attack_pattern_extends:
  assumes "generate_attack_pattern E st tid name descr = (r, st1)"
  shows "\<exists>new. extends st st1 new"
proof (cases r)
  case (Inl e)
  with assms have "st1 = st" by (auto dest: generate_attack_pattern_Inl)
  then show ?thesis using extends_refl by blast
next
  case (Inr x)
  show ?thesis
  proof (cases x)
    case None
    with Inr assms have "st1 = st" by (simp add: generate_attack_pattern_None)
    then show ?thesis using extends_refl by blast
  next
    case (Some ap)
    with Inr assms show ?thesis by (blast dest: generate_attack_pattern_Some(3))
  qed
qed

lemma generate_malware_Inl:
  assumes "generate_malware E st config = (Inl e, st1)"
  shows "st1 = st"
proof (cases config)
  case (PDict cfg)
  with assms obtain kw where "new_object E ''malware'' kw st = (Inl e, st1)"
    unfolding generate_malware_def Let_def
    by (auto split: prod.splits sum.splits)
  then show ?thesis by (rule new_object_Inl)
qed (use assms in \<open>simp_all add: generate_malware_def\<close>)

lemma generate_malware_Inr:
  assumes "generate_malware E st config = (Inr m, st1)"
  shows "obj_type m = ''malware''" "extends st st1 [m]"
    "obj_id m = ''malware--'' @ uuid4 E (drawn st)" "\<exists>cfg. config = PDict cfg"
    "drawn st1 = Suc (drawn st)"
proof -
  from assms obtain cfg where c: "config = PDict cfg"
    by (cases config) (simp_all add: generate_malware_def)
  then show "\<exists>cfg. config = PDict cfg" by blast
  from assms c obtain kw st0 where n: "new_object E ''malware'' kw st = (Inr m, st0)"
    and st1: "st1 = st0\<lparr>objects := objects st0 @ [m]\<rparr>"
    unfolding generate_malware_def Let_def
    by (auto split: prod.splits sum.splits)
  from new_object_Inr[OF n] show "obj_type m = ''malware''"
    "obj_id m = ''malware--'' @ uuid4 E (drawn st)" by simp_all
  from new_object_Inr[OF n] st1 show "extends st st1 [m]" "drawn st1 = Suc (drawn st)"
    by (simp_all add: extends_def is_rel_def)
qed

lemma generate_malware_extends:
  assumes "generate_malware E st config = (r, st1)"
  shows "\<exists>new. extends st st1 new"
proof (cases r)
  case (Inl e)
  with assms have "st1 = st" by (auto dest: generate_malware_Inl)
  then show ?thesis using extends_refl by blast
next
  case (Inr m)
  with assms show ?thesis by (blast dest: generate_malware_Inr(2))
qed

lemma extends_identity: "extends st st1 new \<Longrightarrow> identity st1 = identity st"
  by (simp add: extends_def)

lemma ttps_loop_result:
  assumes "ttps_loop E ta ts st = (r, st1)"
  shows "\<exists>new. extends st st1 new \<and> uses_from st (obj_id ta) new
           \<and> (r = Inr () \<longrightarrow> length (filter is_rel new) = length (filter is_technique ts))"
  using assms
proof (induction ts arbitrary: st)
  case Nil
  then have "extends st st1 []" by (simp add: extends_refl)
  then show ?case by (auto simp: uses_from_def) 
next
  case (Cons ttp rest)
  show ?case
  proof (cases "\<exists>tid. ttp = PStr tid")
    case False
    with Cons.prems have "st1 = st" "r \<noteq> Inr ()"
      by (cases ttp; auto)+
    then show ?thesis using extends_refl[of st] by (auto simp: uses_from_def)
  next
    case True
    then obtain tid where ttp: "ttp = PStr tid" by blast
    obtain ra sa where ga: "generate_attack_pattern E st tid None None = (ra, sa)"
      by (cases "generate_attack_pattern E st tid None None")
    show ?thesis
    proof (cases ra)
      case (Inl e)
      with Cons.prems ttp ga have "st1 = sa" "r \<noteq> Inr ()" by auto
      moreover from ga Inl have "sa = st" by (auto dest: generate_attack_pattern_Inl)
      ultimately show ?thesis using extends_refl[of st] by (auto simp: uses_from_def)
    next
      case (Inr x)
      show ?thesis
      proof (cases x)
        case None
        with Inr ga have sa: "sa = st" and nm: "\<not> re_match TECHNIQUE_PATTERN tid"
          by (simp_all add: generate_attack_pattern_None)
        from Cons.prems ttp ga Inr None sa have "ttps_loop E ta rest st = (r, st1)" by simp
        from Cons.IH[OF this] nm ttp show ?thesis by (simp add: is_technique_def)
      next
        case (Some ap)
        with Inr ga have gs: "generate_attack_pattern E st tid None None = (Inr (Some ap), sa)"
          by simp
        note ap = generate_attack_pattern_Some[OF gs]
        have ida: "identity sa = identity st" using ap(3) by (rule extends_identity)
        let ?kw = "relationship_kwargs ''uses'' (obj_id ta) (obj_id ap) (obj_id (identity sa))"
        obtain rn sn where no: "new_object E ''relationship'' ?kw sa = (rn, sn)"
          by (cases "new_object E ''relationship'' ?kw sa")
        have ap_not_rel: "\<not> is_rel ap" using ap(2) by (simp add: is_rel_def)
        show ?thesis
        proof (cases rn)
          case (Inl e)
          with Cons.prems ttp gs no have "st1 = sn" "r \<noteq> Inr ()" by auto
          moreover from no Inl have "sn = sa" by (auto dest: new_object_Inl)
          ultimately have "extends st st1 [ap]" "r \<noteq> Inr ()" using ap(3) by simp_all
          then show ?thesis using ap_not_rel by (auto simp: uses_from_def)
        next
          case (Inr rel)
          with no have nr: "new_object E ''relationship'' ?kw sa = (Inr rel, sn)" by simp
          note rl = new_object_Inr[OF nr]
          let ?s2 = "record_relationship rel sn"
          from Cons.prems ttp gs nr have "ttps_loop E ta rest ?s2 = (r, st1)" by simp
          from Cons.IH[OF this] obtain new where
            e: "extends ?s2 st1 new" and u: "uses_from ?s2 (obj_id ta) new"
            and c: "r = Inr () \<longrightarrow> length (filter is_rel new) = length (filter is_technique rest)"
            by blast
          have e1: "extends st ?s2 [ap, rel]"
            using ap(3) rl(1) rl(4)
            by (simp add: extends_def record_relationship_def is_rel_def)
          from extends_trans[OF e1 e] have e2: "extends st st1 ([ap, rel] @ new)" .
          have id2: "identity ?s2 = identity st" using e1 by (rule extends_identity)
          have "uses_from st (obj_id ta) ([ap, rel] @ new)"
            using u ap_not_rel rl(2) ida id2 by (auto simp: uses_from_def)
          moreover have "r = Inr () \<longrightarrow>
              length (filter is_rel ([ap, rel] @ new)) = length (filter is_technique (ttp # rest))"
            using c ap_not_rel rl(1) ap(1) ttp by (simp add: is_rel_def is_technique_def)
          ultimately show ?thesis using e2 by blast
        qed
      qed
    qed
  qed
qed


lemma uses_from_empty: "uses_from st source []"
  by (simp add: uses_from_def)

lemma generate_threat_actor_not_dict:
  "\<forall>cfg. config \<noteq> PDict cfg \<Longrightarrow> generate_threat_actor E st config = (r, st1)
   \<Longrightarrow> st1 = st \<and> (\<exists>e. r = Inl e)"
  by (cases config) (auto simp: generate_threat_actor_def)

lemma generate_threat_actor_dict:
  assumes "generate_threat_actor E st (PDict cfg) = (r, st1)"
  shows "(\<exists>e. r = Inl e \<and> st1 = st) \<or>
    (\<exists>ta new. obj_type ta = ''threat-actor'' \<and> obj_id ta = ''threat-actor--'' @ uuid4 E (drawn st)
       \<and> extends st st1 (ta # new) \<and> uses_from st (obj_id ta) new
       \<and> (r = Inr ta \<or> (\<exists>e. r = Inl e))
       \<and> (r = Inr ta \<longrightarrow> length (filter is_rel new) = valid_ttps cfg))"
proof -
  obtain kw where kw: "kw =
       [(''name'', dict_get cfg ''name'' (PStr ''Unknown Threat Actor'')),
        (''threat_actor_types'', dict_get cfg ''threat_actor_types'' (PList [PStr ''unknown''])),
        (''created_by_ref'', PStr (obj_id (identity st)))]
       @ optional_fields
           [''description'', ''aliases'', ''roles'', ''goals'', ''sophistication'',
            ''resource_level'', ''primary_motivation'', ''secondary_motivations'',
            ''personal_motivations''] cfg"
    by blast
  obtain rn sn where no: "new_object E ''threat-actor'' kw st = (rn, sn)"
    by (cases "new_object E ''threat-actor'' kw st")
  show ?thesis
  proof (cases rn)
    case (Inl e)
    with assms no kw have "r = Inl e" "st1 = sn"
      by (simp_all add: generate_threat_actor_def Let_def)
    moreover from no Inl have "sn = st" by (auto dest: new_object_Inl)
    ultimately show ?thesis by simp
  next
    case (Inr ta)
    with no have nr: "new_object E ''threat-actor'' kw st = (Inr ta, sn)" by simp
    note t = new_object_Inr[OF nr]
    have tid: "obj_id ta = ''threat-actor--'' @ uuid4 E (drawn st)" using t(3) by simp
    let ?s2 = "sn\<lparr>objects := objects sn @ [ta]\<rparr>"
    have e1: "extends st ?s2 [ta]"
      using t(1) t(4) by (simp add: extends_def is_rel_def)
    have id2: "identity ?s2 = identity st" using e1 by (rule extends_identity)
    show ?thesis
    proof (cases "map_of cfg ''observed_ttps''")
      case None
      with assms nr kw have "r = Inr ta" "st1 = ?s2"
        by (simp_all add: generate_threat_actor_def Let_def)
      with e1 t None have "obj_type ta = ''threat-actor''"
        "obj_id ta = ''threat-actor--'' @ uuid4 E (drawn st)"
        "extends st st1 (ta # [])" "uses_from st (obj_id ta) []" "r = Inr ta"
        "length (filter is_rel []) = valid_ttps cfg"
        by (simp_all add: uses_from_empty valid_ttps_def)
      then show ?thesis by blast
    next
      case (Some v)
      show ?thesis
      proof (cases "py_iter v")
        case (Inl e)
        with assms nr kw Some have "r = Inl e" "st1 = ?s2"
          by (simp_all add: generate_threat_actor_def Let_def)
        with e1 t have "obj_type ta = ''threat-actor''"
          "obj_id ta = ''threat-actor--'' @ uuid4 E (drawn st)"
          "extends st st1 (ta # [])" "uses_from st (obj_id ta) []" "\<exists>e. r = Inl e"
          "r \<noteq> Inr ta"
          by (simp_all add: uses_from_empty)
        then show ?thesis by blast
      next
        case (Inr ts)
        obtain rl sl where tl: "ttps_loop E ta ts ?s2 = (rl, sl)"
          by (cases "ttps_loop E ta ts ?s2")
        from ttps_loop_result[OF tl] obtain new where
          e: "extends ?s2 sl new" and u: "uses_from ?s2 (obj_id ta) new"
          and c: "rl = Inr () \<longrightarrow> length (filter is_rel new) = length (filter is_technique ts)"
          by blast
        from assms nr kw Some Inr tl have st1: "st1 = sl"
          and r: "r = (case rl of Inl e \<Rightarrow> Inl e | Inr u \<Rightarrow> Inr ta)"
          by (auto simp: generate_threat_actor_def Let_def split: sum.splits)
        from extends_trans[OF e1 e] st1 have e2: "extends st st1 (ta # new)" by simp
        have u2: "uses_from st (obj_id ta) new"
          using u id2 by (simp add: uses_from_def)
        have r2: "r = Inr ta \<or> (\<exists>e. r = Inl e)"
          using r by (cases rl) simp_all
        have "r = Inr ta \<longrightarrow> length (filter is_rel new) = valid_ttps cfg"
          using r c Some Inr by (cases rl) (simp_all add: valid_ttps_def)
        with e2 u2 r2 t(1) tid show ?thesis by blast
      qed
    qed
  qed
qed

lemma generate_threat_actor_Inr:
  assumes "generate_threat_actor E st config = (Inr ta, st1)"
  shows "\<exists>cfg new. config = PDict cfg \<and> obj_type ta = ''threat-actor''
       \<and> obj_id ta = ''threat-actor--'' @ uuid4 E (drawn st)
       \<and> extends st st1 (ta # new) \<and> uses_from st (obj_id ta) new
       \<and> length (filter is_rel new) = valid_ttps cfg"
proof -
  from assms obtain cfg where c: "config = PDict cfg"
    using generate_threat_actor_not_dict[of config E st "Inr ta" st1] by auto
  from generate_threat_actor_dict[of E st cfg "Inr ta" st1] assms c show ?thesis
    by auto
qed

lemma generate_threat_actor_extends:
  assumes "generate_threat_actor E st config = (r, st1)"
  shows "\<exists>new. extends st st1 new"
proof (cases "\<exists>cfg. config = PDict cfg")
  case True
  then obtain cfg where "config = PDict cfg" by blast
  with assms generate_threat_actor_dict[of E st cfg r st1] extends_refl[of st]
  show ?thesis by auto
next
  case False
  with assms generate_threat_actor_not_dict[of config E st r st1] extends_refl[of st]
  show ?thesis by auto
qed

lemma malware_loop_result:
  assumes "malware_loop E camp cfgs st = (r, st1)"
  shows "\<exists>new. extends st st1 new
           \<and> (r = Inr () \<longrightarrow> length new = 2 * length cfgs
                 \<and> malware_uses (obj_id camp) (obj_id (identity st)) new)"
  using assms
proof (induction cfgs arbitrary: st)
  case Nil
  then have "extends st st1 []" by (simp add: extends_refl)
  then show ?case by auto
next
  case (Cons cfg rest)
  obtain rm sm where gm: "generate_malware E st cfg = (rm, sm)"
    by (cases "generate_malware E st cfg")
  show ?case
  proof (cases rm)
    case (Inl e)
    with Cons.prems gm have "st1 = sm" "r \<noteq> Inr ()" by auto
    moreover from gm Inl have "sm = st" by (auto dest: generate_malware_Inl)
    ultimately show ?thesis using extends_refl[of st] by auto
  next
    case (Inr m)
    with gm have gi: "generate_malware E st cfg = (Inr m, sm)" by simp
    note mw = generate_malware_Inr[OF gi]
    have idm: "identity sm = identity st" using mw(2) by (rule extends_identity)
    let ?kw = "relationship_kwargs ''uses'' (obj_id camp) (obj_id m) (obj_id (identity sm))"
    obtain rn sn where no: "new_object E ''relationship'' ?kw sm = (rn, sn)"
      by (cases "new_object E ''relationship'' ?kw sm")
    show ?thesis
    proof (cases rn)
      case (Inl e)
      with Cons.prems gi no have "st1 = sn" "r \<noteq> Inr ()" by auto
      moreover from no Inl have "sn = sm" by (auto dest: new_object_Inl)
      ultimately have "extends st st1 [m]" "r \<noteq> Inr ()" using mw(2) by simp_all
      then show ?thesis by auto
    next
      case (Inr rel)
      with no have nr: "new_object E ''relationship'' ?kw sm = (Inr rel, sn)" by simp
      note rl = new_object_Inr[OF nr]
      let ?s2 = "record_relationship rel sn"
      from Cons.prems gi nr have "malware_loop E camp rest ?s2 = (r, st1)" by simp
      from Cons.IH[OF this] obtain new where
        e: "extends ?s2 st1 new"
        and c: "r = Inr () \<longrightarrow> length new = 2 * length rest
                 \<and> malware_uses (obj_id camp) (obj_id (identity ?s2)) new"
        by blast
      have e1: "extends st ?s2 [m, rel]"
        using mw(1,2) rl(1) rl(4)
        by (simp add: extends_def record_relationship_def is_rel_def)
      from extends_trans[OF e1 e] have e2: "extends st st1 ([m, rel] @ new)" .
      have id2: "identity ?s2 = identity st" using e1 by (rule extends_identity)
      have "r = Inr () \<longrightarrow> length ([m, rel] @ new) = 2 * length (cfg # rest)
                 \<and> malware_uses (obj_id camp) (obj_id (identity st)) ([m, rel] @ new)"
        using c mw(1) rl(1) rl(2) idm id2 by simp
      with e2 show ?thesis by blast
    qed
  qed
qed

lemma malware_uses_two:
  assumes "malware_uses source creator new" "length new = 4"
  shows "\<exists>m1 u1 m2 u2. new = [m1, u1, m2, u2]
     \<and> obj_type m1 = ''malware'' \<and> obj_type m2 = ''malware''
     \<and> obj_type u1 = ''relationship'' \<and> obj_type u2 = ''relationship''
     \<and> props u1 = relationship_kwargs ''uses'' source (obj_id m1) creator
     \<and> props u2 = relationship_kwargs ''uses'' source (obj_id m2) creator"
proof -
  from assms(2) obtain m1 u1 m2 u2 where "new = [m1, u1, m2, u2]"
    by (auto simp: length_Suc_conv eval_nat_numeral)
  with assms(1) show ?thesis by simp
qed

lemma campaign_malware_result:
  assumes "campaign_malware E camp cfg st = (r, st1)"
  shows "\<exists>new. extends st st1 new
     \<and> (\<forall>cfgs. r = Inr () \<and> map_of cfg ''malware'' = Some (PList cfgs)
          \<longrightarrow> length new = 2 * length cfgs
              \<and> malware_uses (obj_id camp) (obj_id (identity st)) new)"
proof (cases "map_of cfg ''malware''")
  case None
  with assms have "st1 = st" by (simp add: campaign_malware_def)
  then show ?thesis using None extends_refl[of st] by auto
next
  case (Some ms)
  show ?thesis
  proof (cases "py_iter ms")
    case (Inl e)
    with assms Some have "st1 = st" "r \<noteq> Inr ()" by (auto simp: campaign_malware_def)
    then show ?thesis using extends_refl[of st] by auto
  next
    case (Inr configs)
    with assms Some have ml: "malware_loop E camp configs st = (r, st1)"
      by (simp add: campaign_malware_def)
    from malware_loop_result[OF ml] obtain new where
      "extends st st1 new" "r = Inr () \<longrightarrow> length new = 2 * length configs
                 \<and> malware_uses (obj_id camp) (obj_id (identity st)) new"
      by blast
    moreover have "cfgs = configs" if "map_of cfg ''malware'' = Some (PList cfgs)" for cfgs
      using that Some Inr by simp
    ultimately show ?thesis by blast
  qed
qed

lemma campaign_threat_actor_result:
  assumes "campaign_threat_actor E camp cfg st = (r, st1)"
  shows "\<exists>new. extends st st1 new
     \<and> (\<forall>tcfg. r = Inr () \<and> map_of cfg ''threat_actor'' = Some (PDict tcfg) \<longrightarrow>
          (\<exists>ta mid attr. new = ta # mid @ [attr]
             \<and> obj_type ta = ''threat-actor''
             \<and> obj_id ta = ''threat-actor--'' @ uuid4 E (drawn st)
             \<and> uses_from st (obj_id ta) mid
             \<and> length (filter is_rel mid) = valid_ttps tcfg
             \<and> obj_type attr = ''relationship''
             \<and> props attr = relationship_kwargs ''attributed-to'' (obj_id camp) (obj_id ta)
                   (obj_id (identity st))))"
proof (cases "map_of cfg ''threat_actor''")
  case None
  with assms have "st1 = st" by (simp add: campaign_threat_actor_def)
  then show ?thesis using None extends_refl[of st] by auto
next
  case (Some tac)
  obtain rt sa where gt: "generate_threat_actor E st tac = (rt, sa)"
    by (cases "generate_threat_actor E st tac")
  from generate_threat_actor_extends[OF gt] obtain new0 where e0: "extends st sa new0"
    by blast
  show ?thesis
  proof (cases rt)
    case (Inl e)
    with assms Some gt have "st1 = sa" "r \<noteq> Inr ()"
      by (auto simp: campaign_threat_actor_def)
    with e0 show ?thesis by auto
  next
    case (Inr ta)
    with gt have gi: "generate_threat_actor E st tac = (Inr ta, sa)" by simp
    from generate_threat_actor_Inr[OF gi] obtain tcfg0 mid where
      tac: "tac = PDict tcfg0" and ta: "obj_type ta = ''threat-actor''"
      "obj_id ta = ''threat-actor--'' @ uuid4 E (drawn st)"
      and ea: "extends st sa (ta # mid)" and u: "uses_from st (obj_id ta) mid"
      and c: "length (filter is_rel mid) = valid_ttps tcfg0"
      by blast
    have ida: "identity sa = identity st" using ea by (rule extends_identity)
    let ?kw = "relationship_kwargs ''attributed-to'' (obj_id camp) (obj_id ta)
                 (obj_id (identity sa))"
    obtain rn sn where no: "new_object E ''relationship'' ?kw sa = (rn, sn)"
      by (cases "new_object E ''relationship'' ?kw sa")
    show ?thesis
    proof (cases rn)
      case (Inl e)
      with assms Some gi no have "st1 = sn" "r \<noteq> Inr ()"
        by (auto simp: campaign_threat_actor_def)
      moreover from no Inl have "sn = sa" by (auto dest: new_object_Inl)
      ultimately show ?thesis using ea by auto
    next
      case (Inr attr)
      with no have nr: "new_object E ''relationship'' ?kw sa = (Inr attr, sn)" by simp
      note rl = new_object_Inr[OF nr]
      from assms Some gi nr have st1: "st1 = record_relationship attr sn"
        by (simp add: campaign_threat_actor_def)
      have "extends sa st1 [attr]"
        using st1 rl(1) rl(4) by (simp add: extends_def record_relationship_def is_rel_def)
      from extends_trans[OF ea this] have e2: "extends st st1 (ta # mid @ [attr])" by simp
      have "tcfg = tcfg0" if "map_of cfg ''threat_actor'' = Some (PDict tcfg)" for tcfg
        using that Some tac by simp
      with e2 ta u c rl(1) rl(2) ida show ?thesis by auto
    qed
  qed
qed

lemma campaign_threat_actor_extends:
  assumes "campaign_threat_actor E camp cfg st = (r, st1)"
  shows "\<exists>new. extends st st1 new"
proof -
  from campaign_threat_actor_result[OF assms] obtain new where "extends st st1 new"
    by (elim exE conjE)
  then show ?thesis ..
qed

lemma campaign_malware_extends:
  assumes "campaign_malware E camp cfg st = (r, st1)"
  shows "\<exists>new. extends st st1 new"
proof -
  from campaign_malware_result[OF assms] obtain new where "extends st st1 new"
    by (elim exE conjE)
  then show ?thesis ..
qed

lemma generate_campaign_not_dict:
  "\<forall>cfg. config \<noteq> PDict cfg \<Longrightarrow> generate_campaign E st config = (r, st1)
   \<Longrightarrow> st1 = st \<and> (\<exists>e. r = Inl e)"
  by (cases config) (auto simp: generate_campaign_def)

lemma generate_campaign_dict:
  assumes "generate_campaign E st (PDict cfg) = (r, st1)"
  shows "(\<exists>e. r = Inl e \<and> st1 = st) \<or>
    (\<exists>camp s2 s3 rt rm. obj_type camp = ''campaign''
       \<and> obj_id camp = ''campaign--'' @ uuid4 E (drawn st)
       \<and> extends st s2 [camp]
       \<and> campaign_threat_actor E camp cfg s2 = (rt, s3)
       \<and> (rt = Inr () \<longrightarrow> campaign_malware E camp cfg s3 = (rm, st1))
       \<and> (rt \<noteq> Inr () \<longrightarrow> st1 = s3 \<and> (\<exists>e. r = Inl e))
       \<and> (r = Inr camp \<or> (\<exists>e. r = Inl e))
       \<and> (r = Inr camp \<longrightarrow> rt = Inr () \<and> rm = Inr ()))"
proof (cases "campaign_fields E
          [''description'', ''aliases'', ''first_seen'', ''last_seen'', ''objective''] cfg")
  case (Inl e)
  with assms show ?thesis by (auto simp: generate_campaign_def)
next
  case (Inr optional)
  let ?kw = "[(''name'', dict_get cfg ''name'' (PStr ''Unknown Campaign'')),
              (''created_by_ref'', PStr (obj_id (identity st)))] @ optional"
  obtain rn sn where no: "new_object E ''campaign'' ?kw st = (rn, sn)"
    by (cases "new_object E ''campaign'' ?kw st")
  show ?thesis
  proof (cases rn)
    case (Inl e)
    with assms Inr no have "r = Inl e" "st1 = sn" by (auto simp: generate_campaign_def)
    moreover from no Inl have "sn = st" by (auto dest: new_object_Inl)
    ultimately show ?thesis by simp
  next
    case (Inr camp)
    with no have nr: "new_object E ''campaign'' ?kw st = (Inr camp, sn)" by simp
    note c = new_object_Inr[OF nr]
    have cid: "obj_id camp = ''campaign--'' @ uuid4 E (drawn st)" using c(3) by simp
    let ?s2 = "sn\<lparr>objects := objects sn @ [camp]\<rparr>"
    have e1: "extends st ?s2 [camp]"
      using c(1) c(4) by (simp add: extends_def is_rel_def)
    obtain rt s3 where ct: "campaign_threat_actor E camp cfg ?s2 = (rt, s3)"
      by (cases "campaign_threat_actor E camp cfg ?s2")
    obtain rm s4 where cm: "campaign_malware E camp cfg s3 = (rm, s4)"
      by (cases "campaign_malware E camp cfg s3")
    show ?thesis
    proof (cases rt)
      case (Inl e)
      with assms \<open>campaign_fields E _ cfg = Inr optional\<close> nr ct
      have "r = Inl e" "st1 = s3" by (auto simp: generate_campaign_def)
      with c(1) cid e1 ct Inl show ?thesis by blast
    next
      case (Inr u)
      then have rt: "rt = Inr ()" by simp
      with assms \<open>campaign_fields E _ cfg = Inr optional\<close> nr ct cm
      have r: "r = (case rm of Inl e \<Rightarrow> Inl e | Inr u \<Rightarrow> Inr camp)" and st1: "st1 = s4"
        by (auto simp: generate_campaign_def split: sum.splits)
      have "r = Inr camp \<or> (\<exists>e. r = Inl e)" "r = Inr camp \<longrightarrow> rm = Inr ()"
        using r by (cases rm; simp)+
      with c(1) cid e1 ct cm rt st1 show ?thesis by blast
    qed
  qed
qed

lemma generate_campaign_extends:
  assumes "generate_campaign E st config = (r, st1)"
  shows "\<exists>new. extends st st1 new"
proof (cases "\<exists>cfg. config = PDict cfg")
  case False
  with assms generate_campaign_not_dict[of config E st r st1] extends_refl[of st]
  show ?thesis by auto
next
  case True
  then obtain cfg where "config = PDict cfg" by blast
  with assms have a: "generate_campaign E st (PDict cfg) = (r, st1)" by simp
  from generate_campaign_dict[OF a] show ?thesis
  proof
    assume "\<exists>e. r = Inl e \<and> st1 = st"
    then show ?thesis using extends_refl[of st] by auto
  next
    assume "\<exists>camp s2 s3 rt rm. obj_type camp = ''campaign''
       \<and> obj_id camp = ''campaign--'' @ uuid4 E (drawn st)
       \<and> extends st s2 [camp]
       \<and> campaign_threat_actor E camp cfg s2 = (rt, s3)
       \<and> (rt = Inr () \<longrightarrow> campaign_malware E camp cfg s3 = (rm, st1))
       \<and> (rt \<noteq> Inr () \<longrightarrow> st1 = s3 \<and> (\<exists>e. r = Inl e))
       \<and> (r = Inr camp \<or> (\<exists>e. r = Inl e))
       \<and> (r = Inr camp \<longrightarrow> rt = Inr () \<and> rm = Inr ())"
    then obtain camp s2 s3 rt rm where e1: "extends st s2 [camp]"
      and ct: "campaign_threat_actor E camp cfg s2 = (rt, s3)"
      and cm: "rt = Inr () \<longrightarrow> campaign_malware E camp cfg s3 = (rm, st1)"
      and nt: "rt \<noteq> Inr () \<longrightarrow> st1 = s3"
      by blast
    from campaign_threat_actor_extends[OF ct] obtain n2 where e2: "extends s2 s3 n2" by blast
    show ?thesis
    proof (cases "rt = Inr ()")
      case True
      with cm have "campaign_malware E camp cfg s3 = (rm, st1)" by simp
      from campaign_malware_extends[OF this] obtain n3 where "extends s3 st1 n3" by blast
      with extends_trans[OF extends_trans[OF e1 e2]] show ?thesis by blast
    next
      case False
      with nt e2 extends_trans[OF e1] show ?thesis by blast
    qed
  qed
qed

lemma relationship_props:
  assumes "props r = relationship_kwargs rtype source target creator"
  shows "obj_prop r ''relationship_type'' = Some (PStr rtype)"
    "obj_prop r ''source_ref'' = Some (PStr source)"
    "obj_prop r ''target_ref'' = Some (PStr target)"
    "obj_prop r ''created_by_ref'' = Some (PStr creator)"
  using assms by (simp_all add: obj_prop_def relationship_kwargs_def)

lemma produced_extends:
  "extends st st1 new \<Longrightarrow> produced st st1 = filter is_rel new"
  by (simp add: produced_def extends_def)

lemma campaign_structure:
  assumes "map_of cfg ''threat_actor'' = Some (PDict ta_cfg)"
    and "map_of cfg ''malware'' = Some (PList [PDict m1_cfg, PDict m2_cfg])"
    and "generate_campaign E st (PDict cfg) = (Inr campaign, st1)"
  shows "\<exists>actor mal1 mal2 attributed uses1 uses2 actor_rels.
      produced st st1 = actor_rels @ [attributed, uses1, uses2]
    \<and> of_type ''attributed-to'' (produced st st1) = [attributed]
    \<and> is_relationship ''attributed-to'' (obj_id campaign) (obj_id actor) attributed
    \<and> filter (\<lambda>r. obj_prop r ''source_ref'' = Some (PStr (obj_id campaign)))
         (of_type ''uses'' (produced st st1)) = [uses1, uses2]
    \<and> is_relationship ''uses'' (obj_id campaign) (obj_id mal1) uses1
    \<and> is_relationship ''uses'' (obj_id campaign) (obj_id mal2) uses2
    \<and> of_type ''uses'' (produced st st1) = actor_rels @ [uses1, uses2]
    \<and> length actor_rels = valid_ttps ta_cfg
    \<and> (\<forall>r\<in>set actor_rels. obj_prop r ''source_ref'' = Some (PStr (obj_id actor)))
    \<and> (\<forall>r\<in>set (produced st st1).
          obj_prop r ''created_by_ref'' = Some (PStr (obj_id (identity st))))
    \<and> obj_type campaign = ''campaign'' \<and> obj_type actor = ''threat-actor''
    \<and> obj_type mal1 = ''malware'' \<and> obj_type mal2 = ''malware''
    \<and> set ([campaign, actor, mal1, mal2] @ produced st st1) \<subseteq> set (objects st1)
    \<and> prefix (objects st) (objects st1)"
proof -
  from generate_campaign_dict[OF assms(3)] obtain s2 s3 where
    ct: "obj_type campaign = ''campaign''"
    and cid: "obj_id campaign = ''campaign--'' @ uuid4 E (drawn st)"
    and e1: "extends st s2 [campaign]"
    and cta: "campaign_threat_actor E campaign cfg s2 = (Inr (), s3)"
    and cmw: "campaign_malware E campaign cfg s3 = (Inr (), st1)"
    by auto
  have id2: "identity s2 = identity st" using e1 by (rule extends_identity)
  from campaign_threat_actor_result[OF cta] assms(1) id2 obtain actor mid attributed where
    e2: "extends s2 s3 (actor # mid @ [attributed])"
    and at: "obj_type actor = ''threat-actor''"
    and aid: "obj_id actor = ''threat-actor--'' @ uuid4 E (drawn s2)"
    and um: "uses_from st (obj_id actor) mid"
    and nm: "length (filter is_rel mid) = valid_ttps ta_cfg"
    and rt: "obj_type attributed = ''relationship''"
    and rp: "props attributed = relationship_kwargs ''attributed-to'' (obj_id campaign)
               (obj_id actor) (obj_id (identity st))"
    by (auto simp: uses_from_def)
  have id3: "identity s3 = identity st" using e2 id2 by (simp add: extends_def)
  from campaign_malware_result[OF cmw] assms(2) id3 obtain new3 where
    e3: "extends s3 st1 new3" and l3: "length new3 = 4"
    and mu: "malware_uses (obj_id campaign) (obj_id (identity st)) new3"
    by auto
  from malware_uses_two[OF mu l3] obtain mal1 uses1 mal2 uses2 where
    n3: "new3 = [mal1, uses1, mal2, uses2]"
    and mt: "obj_type mal1 = ''malware''" "obj_type mal2 = ''malware''"
    and ut: "obj_type uses1 = ''relationship''" "obj_type uses2 = ''relationship''"
    and up: "props uses1 = relationship_kwargs ''uses'' (obj_id campaign) (obj_id mal1)
               (obj_id (identity st))"
      "props uses2 = relationship_kwargs ''uses'' (obj_id campaign) (obj_id mal2)
               (obj_id (identity st))"
    by blast
  let ?all = "[campaign] @ (actor # mid @ [attributed]) @ [mal1, uses1, mal2, uses2]"
  from extends_trans[OF extends_trans[OF e1 e2] e3] n3
  have ext: "extends st st1 ?all" by simp
  let ?ar = "filter is_rel mid"
  have pr: "produced st st1 = ?ar @ [attributed, uses1, uses2]"
    using produced_extends[OF ext] ct at mt ut rt by (simp add: is_rel_def)
  have ar: "\<exists>target. props r = relationship_kwargs ''uses'' (obj_id actor) target
                (obj_id (identity st))" if "r \<in> set ?ar" for r
    using um that by (auto simp: uses_from_def)
  have ar_type: "obj_prop r ''relationship_type'' = Some (PStr ''uses'')"
    and ar_src: "obj_prop r ''source_ref'' = Some (PStr (obj_id actor))"
    and ar_by: "obj_prop r ''created_by_ref'' = Some (PStr (obj_id (identity st)))"
    if "r \<in> set ?ar" for r
    using ar[OF that] by (auto dest: relationship_props)
  note ap = relationship_props[OF rp]
  note u1 = relationship_props[OF up(1)]
  note u2 = relationship_props[OF up(2)]
  have ne: "obj_id actor \<noteq> obj_id campaign" using aid cid by simp
  have f1: "of_type ''attributed-to'' ?ar = []"
    unfolding of_type_def by (rule filter_False) (simp add: ar_type)
  have f2: "of_type ''uses'' ?ar = ?ar"
    unfolding of_type_def by (rule filter_True) (simp add: ar_type)
  have f3: "filter (\<lambda>r. obj_prop r ''source_ref'' = Some (PStr (obj_id campaign))) ?ar = []"
    by (rule filter_False) (simp add: ar_src ne)
  have c1: "of_type ''attributed-to'' (produced st st1) = [attributed]"
    using f1 ap(1) u1(1) u2(1) by (simp add: pr of_type_def)
  have c2: "of_type ''uses'' (produced st st1) = ?ar @ [uses1, uses2]"
    using f2 ap(1) u1(1) u2(1) by (simp add: pr of_type_def)
  have c3: "filter (\<lambda>r. obj_prop r ''source_ref'' = Some (PStr (obj_id campaign)))
         (of_type ''uses'' (produced st st1)) = [uses1, uses2]"
    using f3 u1(2) u2(2) by (simp add: c2)
  have c4: "is_relationship ''attributed-to'' (obj_id campaign) (obj_id actor) attributed"
    "is_relationship ''uses'' (obj_id campaign) (obj_id mal1) uses1"
    "is_relationship ''uses'' (obj_id campaign) (obj_id mal2) uses2"
    using rt ut ap u1 u2 by (simp_all add: is_relationship_def)
  have c5: "\<forall>r\<in>set (produced st st1).
          obj_prop r ''created_by_ref'' = Some (PStr (obj_id (identity st)))"
    using ar_by ap(4) u1(4) u2(4) by (auto simp: pr)
  have c6: "\<forall>r\<in>set ?ar. obj_prop r ''source_ref'' = Some (PStr (obj_id actor))"
    using ar_src by blast
  have ob: "objects st1 = objects st @ ?all" using ext by (simp add: extends_def)
  have c7: "set ([campaign, actor, mal1, mal2] @ produced st st1) \<subseteq> set (objects st1)"
    unfolding pr ob by auto
  have c8: "prefix (objects st) (objects st1)" unfolding ob by simp
  from pr c1 c2 c3 c4 c5 c6 c7 c8 nm ct at mt show ?thesis by blast
qed

section \<open>A library that accepts: the generators return\<close>

lemma new_object_accepted:
  "check E kind kwargs = None \<Longrightarrow>
   new_object E kind kwargs st =
     (Inr \<lparr>obj_type = kind, obj_id = kind @ ''--'' @ uuid4 E (drawn st), props = kwargs\<rparr>,
      st\<lparr>drawn := Suc (drawn st),
         created := created st
           @ [\<lparr>obj_type = kind, obj_id = kind @ ''--'' @ uuid4 E (drawn st), props = kwargs\<rparr>]\<rparr>)"
  by (simp add: new_object_def Let_def)

lemma generate_malware_returns:
  assumes "check E = (\<lambda>kind kwargs. None)"
  shows "\<exists>m st1. generate_malware E st (PDict cfg) = (Inr m, st1)"
  using assms by (simp add: generate_malware_def Let_def new_object_def)

lemma malware_loop_returns:
  assumes "check E = (\<lambda>kind kwargs. None)" "\<forall>c\<in>set cfgs. \<exists>d. c = PDict d"
  shows "\<exists>st1. malware_loop E camp cfgs st = (Inr (), st1)"
  using assms(2)
proof (induction cfgs arbitrary: st)
  case Nil
  show ?case by simp
next
  case (Cons c rest)
  then obtain d where c: "c = PDict d" by auto
  from generate_malware_returns[OF assms(1)] obtain m sm where
    "generate_malware E st (PDict d) = (Inr m, sm)" by blast
  moreover from Cons have "\<exists>st1. malware_loop E camp rest s = (Inr (), st1)" for s by simp
  ultimately show ?case using assms(1) c by (simp add: new_object_def Let_def)
qed

lemma generate_attack_pattern_returns:
  assumes "check E = (\<lambda>kind kwargs. None)"
  shows "\<exists>x st1. generate_attack_pattern E st tid name descr = (Inr x, st1)"
  using assms by (simp add: generate_attack_pattern_def Let_def new_object_def)

lemma ttps_loop_returns:
  assumes "check E = (\<lambda>kind kwargs. None)" "\<forall>t\<in>set ts. \<exists>s. t = PStr s"
  shows "\<exists>st1. ttps_loop E ta ts st = (Inr (), st1)"
  using assms(2)
proof (induction ts arbitrary: st)
  case Nil
  show ?case by simp
next
  case (Cons t rest)
  then obtain s where t: "t = PStr s" by auto
  from generate_attack_pattern_returns[OF assms(1)] obtain x sa where
    g: "generate_attack_pattern E st s None None = (Inr x, sa)" by blast
  from Cons have ih: "\<exists>st1. ttps_loop E ta rest s = (Inr (), st1)" for s by simp
  show ?case
  proof (cases x)
    case None
    with g t ih show ?thesis by simp
  next
    case (Some ap)
    with g t ih assms(1) show ?thesis by (simp add: new_object_def Let_def)
  qed
qed

lemma generate_threat_actor_returns:
  assumes "check E = (\<lambda>kind kwargs. None)"
    and "map_of cfg ''observed_ttps'' = None
         \<or> (\<exists>ts. map_of cfg ''observed_ttps'' = Some (PList ts) \<and> (\<forall>t\<in>set ts. \<exists>s. t = PStr s))"
  shows "\<exists>ta st1. generate_threat_actor E st (PDict cfg) = (Inr ta, st1)"
  using assms(2)
proof
  assume "map_of cfg ''observed_ttps'' = None"
  with assms(1) show ?thesis
    by (simp add: generate_threat_actor_def Let_def new_object_def)
next
  assume "\<exists>ts. map_of cfg ''observed_ttps'' = Some (PList ts) \<and> (\<forall>t\<in>set ts. \<exists>s. t = PStr s)"
  then obtain ts where ts: "map_of cfg ''observed_ttps'' = Some (PList ts)"
    and str: "\<forall>t\<in>set ts. \<exists>s. t = PStr s" by blast
  obtain kw where kw: "kw =
       [(''name'', dict_get cfg ''name'' (PStr ''Unknown Threat Actor'')),
        (''threat_actor_types'', dict_get cfg ''threat_actor_types'' (PList [PStr ''unknown''])),
        (''created_by_ref'', PStr (obj_id (identity st)))]
       @ optional_fields
           [''description'', ''aliases'', ''roles'', ''goals'', ''sophistication'',
            ''resource_level'', ''primary_motivation'', ''secondary_motivations'',
            ''personal_motivations''] cfg"
    by blast
  obtain ta sn where no: "new_object E ''threat-actor'' kw st = (Inr ta, sn)"
    using assms(1) by (simp add: new_object_def Let_def)
  from ttps_loop_returns[OF assms(1) str] obtain s3 where
    tl: "ttps_loop E ta ts (sn\<lparr>objects := objects sn @ [ta]\<rparr>) = (Inr (), s3)" by blast
  have "generate_threat_actor E st (PDict cfg) = (Inr ta, s3)"
    using no tl ts kw by (simp add: generate_threat_actor_def Let_def)
  then show ?thesis by blast
qed

lemma campaign_fields_returns:
  assumes "\<forall>s. \<exists>t. fromisoformat E s = Inr t"
  shows "\<exists>kw. campaign_fields E fs cfg = Inr kw"
proof (induction fs)
  case Nil
  show ?case by simp
next
  case (Cons f rest)
  then obtain kw where r: "campaign_fields E rest cfg = Inr kw" by blast
  show ?case
  proof (cases "map_of cfg f")
    case None
    with r show ?thesis by simp
  next
    case (Some v)
    have "\<exists>v1. (case v of
                   PStr s \<Rightarrow>
                     if f \<in> set [''first_seen'', ''last_seen'']
                     then (case fromisoformat E (replace_char CHR ''Z'' ''+00:00'' s) of
                             Inl e \<Rightarrow> Inl e
                           | Inr t \<Rightarrow> Inr (PDatetime t))
                     else Inr v
                 | _ \<Rightarrow> Inr v) = (Inr v1 :: py_exn + pyval)"
    proof (cases v)
      case (PStr s)
      from assms obtain t where "fromisoformat E (replace_char CHR ''Z'' ''+00:00'' s) = Inr t"
        by blast
      with PStr show ?thesis by simp
    qed simp_all
    then obtain v1 where "(case v of
                   PStr s \<Rightarrow>
                     if f \<in> set [''first_seen'', ''last_seen'']
                     then (case fromisoformat E (replace_char CHR ''Z'' ''+00:00'' s) of
                             Inl e \<Rightarrow> Inl e
                           | Inr t \<Rightarrow> Inr (PDatetime t))
                     else Inr v
                 | _ \<Rightarrow> Inr v) = (Inr v1 :: py_exn + pyval)" by blast
    with Some r show ?thesis by simp
  qed
qed

lemma generate_campaign_returns:
  assumes "check E = (\<lambda>kind kwargs. None)" "\<forall>s. \<exists>t. fromisoformat E s = Inr t"
    and "map_of cfg ''threat_actor'' = Some (PDict ta_cfg)"
    and "map_of ta_cfg ''observed_ttps'' = None
         \<or> (\<exists>ts. map_of ta_cfg ''observed_ttps'' = Some (PList ts)
               \<and> (\<forall>t\<in>set ts. \<exists>s. t = PStr s))"
    and "map_of cfg ''malware'' = Some (PList ms)" "\<forall>c\<in>set ms. \<exists>d. c = PDict d"
  shows "\<exists>campaign st1. generate_campaign E st (PDict cfg) = (Inr campaign, st1)"
proof -
  from campaign_fields_returns[OF assms(2)] obtain optional where
    cf: "campaign_fields E
          [''description'', ''aliases'', ''first_seen'', ''last_seen'', ''objective''] cfg
         = Inr optional" by blast
  obtain camp sn where no: "new_object E ''campaign''
       ([(''name'', dict_get cfg ''name'' (PStr ''Unknown Campaign'')),
         (''created_by_ref'', PStr (obj_id (identity st)))] @ optional) st = (Inr camp, sn)"
    using assms(1) by (simp add: new_object_def Let_def)
  let ?s2 = "sn\<lparr>objects := objects sn @ [camp]\<rparr>"
  from generate_threat_actor_returns[OF assms(1) assms(4)] obtain ta sa where
    gt: "generate_threat_actor E ?s2 (PDict ta_cfg) = (Inr ta, sa)" by blast
  obtain rel sr where nr: "new_object E ''relationship''
       (relationship_kwargs ''attributed-to'' (obj_id camp) (obj_id ta) (obj_id (identity sa))) sa
       = (Inr rel, sr)"
    using assms(1) by (simp add: new_object_def Let_def)
  have ct: "campaign_threat_actor E camp cfg ?s2 = (Inr (), record_relationship rel sr)"
    using assms(3) gt nr by (simp add: campaign_threat_actor_def)
  from malware_loop_returns[OF assms(1) assms(6)] obtain s4 where
    ml: "malware_loop E camp ms (record_relationship rel sr) = (Inr (), s4)" by blast
  have cm: "campaign_malware E camp cfg (record_relationship rel sr) = (Inr (), s4)"
    using assms(5) ml by (simp add: campaign_malware_def)
  have "generate_campaign E st (PDict cfg) = (Inr camp, s4)"
    using cf no ct cm by (simp add: generate_campaign_def)
  then show ?thesis by blast
qed

section \<open>Campaigns and their relationships\<close>

lemma technique_T1055: "re_match TECHNIQUE_PATTERN ''T1055''"
  by code_simp

lemma valid_ttps_demo: "valid_ttps demo_actor = 1"
  using technique_T1055 by (simp add: valid_ttps_def demo_actor_def is_technique_def)

lemma demo_env_accepts: "check demo_env = (\<lambda>kind kwargs. None)"
  "\<forall>s. \<exists>t. fromisoformat demo_env s = Inr t"
  by (simp_all add: demo_env_def)

lemma demo_campaign_shape:
  "map_of demo_campaign ''threat_actor'' = Some (PDict demo_actor)"
  "map_of demo_campaign ''malware''
     = Some (PList [PDict [(''name'', PStr ''Loader'')], PDict [(''name'', PStr ''Wiper'')]])"
  "map_of demo_actor ''observed_ttps'' = Some (PList [PStr ''T1055''])"
  by (simp_all add: demo_campaign_def demo_actor_def)

lemma demo_campaign_returns:
  "\<exists>campaign st1. generate_campaign demo_env demo_session (PDict demo_campaign)
      = (Inr campaign, st1)"
  by (rule generate_campaign_returns[OF demo_env_accepts demo_campaign_shape(1) _
        demo_campaign_shape(2)])
     (simp_all add: demo_campaign_shape(3))




section \<open>The bundle validator\<close>

lemma as_dicts_Some: "as_dicts xs = Some objs \<Longrightarrow> xs = map PDict objs"
proof (induction xs arbitrary: objs)
  case Nil
  then show ?case by simp
next
  case (Cons x xs)
  then show ?case by (cases x) auto
qed

lemma check_object_dict:
  "check_object E (PDict obj) errors = Inr (errors @ member_errors E obj)"
  by (simp add: check_object_def member_errors_def)

lemma objects_loop_dicts:
  "objects_loop E (map PDict objs) errors = Inr (errors @ concat (map (member_errors E) objs))"
  by (induction objs arbitrary: errors) (simp_all add: check_object_dict)

lemma validate_checks_members:
  assumes "members d = Some objs"
  shows "validate_checks E d = Inr (bundle_errors E d objs = [], bundle_errors E d objs)"
proof (cases "map_of d ''objects''")
  case None
  with assms have "objs = []" by (simp add: members_def)
  with None show ?thesis
    by (simp add: validate_checks_def dict_get_def bundle_errors_def)
next
  case (Some v)
  with assms obtain xs where v: "v = PList xs" and "as_dicts xs = Some objs"
    by (cases v) (simp_all add: members_def)
  then have xs: "xs = map PDict objs" by (simp add: as_dicts_Some)
  show ?thesis
    using Some v xs
    by (simp add: validate_checks_def dict_get_def bundle_errors_def objects_loop_dicts)
qed

lemma validate_bundle_members:
  "members d = Some objs \<Longrightarrow>
   validate_bundle E (Inr d) = Inr (bundle_errors E d objs = [], bundle_errors E d objs)"
  by (simp add: validate_bundle_def validate_checks_members)

lemma validate_checks_valid:
  "validate_checks E d = Inr (v, errs) \<Longrightarrow> v = (errs = [])"
  by (auto simp: validate_checks_def Let_def split: sum.splits)

lemma raised_is_Exception:
  "is_Exception (not_iterable v)" "is_Exception (not_container v)"
  "is_Exception (no_attribute v a)" "is_Exception (not_a_string v)"
  by (simp_all add: not_iterable_def not_container_def no_attribute_def not_a_string_def)

lemma py_iter_raises: "py_iter v = Inl e \<Longrightarrow> is_Exception e"
  by (cases v) (auto simp: raised_is_Exception)

lemma py_contains_raises: "py_contains k v = Inl e \<Longrightarrow> is_Exception e"
  by (cases v) (auto simp: raised_is_Exception)

lemma py_get_raises: "py_get v k dflt = Inl e \<Longrightarrow> is_Exception e"
  by (cases v) (auto simp: raised_is_Exception)

lemma check_object_raises: "check_object E obj errors = Inl e \<Longrightarrow> is_Exception e"
  unfolding check_object_def
  by (auto split: sum.splits if_splits dest: py_contains_raises py_get_raises)

lemma objects_loop_raises: "objects_loop E objs errors = Inl e \<Longrightarrow> is_Exception e"
proof (induction objs arbitrary: errors)
  case Nil
  then show ?case by simp
next
  case (Cons obj rest)
  then show ?case
    by (cases "check_object E obj errors") (auto dest: check_object_raises)
qed

lemma validate_checks_raises: "validate_checks E d = Inl e \<Longrightarrow> is_Exception e"
  unfolding validate_checks_def Let_def
  by (auto split: sum.splits dest: py_iter_raises objects_loop_raises)

lemma validate_bundle_returns:
  assumes "\<forall>e. x = Inl e \<longrightarrow> is_Exception e"
  shows "\<exists>valid errors. validate_bundle E x = Inr (valid, errors)"
proof (cases x)
  case (Inl e)
  with assms show ?thesis by (auto simp: validate_bundle_def except_Exception_def)
next
  case (Inr d)
  show ?thesis
  proof (cases "validate_checks E d")
    case (Inl e)
    then have "is_Exception e" by (rule validate_checks_raises)
    with Inl \<open>x = Inr d\<close> show ?thesis by (auto simp: validate_bundle_def except_Exception_def)
  next
    case (Inr rep)
    with \<open>x = Inr d\<close> show ?thesis by (cases rep) (simp add: validate_bundle_def)
  qed
qed

lemma validate_bundle_valid:
  assumes "validate_bundle E x = Inr (valid, errors)"
  shows "valid \<longleftrightarrow> errors = []"
proof (cases x)
  case (Inl e)
  with assms show ?thesis
    by (auto simp: validate_bundle_def except_Exception_def split: if_splits)
next
  case (Inr d)
  show ?thesis
  proof (cases "validate_checks E d")
    case (Inl e)
    with Inr assms show ?thesis
      by (auto simp: validate_bundle_def except_Exception_def split: if_splits)
  next
    case (Inr rep)
    with \<open>x = Inr d\<close> assms have "validate_checks E d = Inr (valid, errors)"
      by (simp add: validate_bundle_def)
    then show ?thesis by (rule validate_checks_valid)
  qed
qed

lemma member_errors_none:
  "map_of obj ''type'' \<noteq> None \<Longrightarrow> map_of obj ''id'' \<noteq> None \<Longrightarrow> member_errors E obj = []"
  by (simp add: member_errors_def)

text \<open>
  Claim C3. The validity flag of a report is true exactly when its error list is empty,
  and a report is returned whenever the bundle was serialized or the serialization
  raised an exception derived from \<^verbatim>\<open>Exception\<close>. For a bundle whose object list is
  absent or a list of dictionaries the error list is, in check order, an error for a type
  tag other than \<^verbatim>\<open>bundle\<close>, an error for an empty or missing object list, and one
  error for each missing \<^verbatim>\<open>type\<close> and each missing \<^verbatim>\<open>id\<close> of a member. So a bundle
  of type \<^verbatim>\<open>bundle\<close> with at least one object, all with both fields, is reported as
  \<open>(True, [])\<close>, and a bundle of no objects as invalid, with a message about the missing
  objects in a non-empty error list.
\<close>

theorem validate_bundle_report:
  "(validate_bundle E x = Inr (valid, errors) \<longrightarrow> (valid \<longleftrightarrow> errors = []))
   \<and> ((\<forall>e. x = Inl e \<longrightarrow> is_Exception e)
        \<longrightarrow> (\<exists>v errs. validate_bundle E x = Inr (v, errs) \<and> (v \<longleftrightarrow> errs = [])))
   \<and> (members d = Some objs \<longrightarrow>
        validate_bundle E (Inr d) = Inr (bundle_errors E d objs = [], bundle_errors E d objs))
   \<and> (members d = Some objs \<and> map_of d ''type'' = Some (PStr ''bundle'') \<and> objs \<noteq> []
        \<and> (\<forall>obj\<in>set objs. map_of obj ''type'' \<noteq> None \<and> map_of obj ''id'' \<noteq> None)
        \<longrightarrow> validate_bundle E (Inr d) = Inr (True, []))
   \<and> (members d = Some [] \<longrightarrow>
        (\<exists>errs. validate_bundle E (Inr d) = Inr (False, errs)
           \<and> errs \<noteq> [] \<and> ''Bundle has no objects'' \<in> set errs))"
proof -
  have a: "validate_bundle E (Inr d) = Inr (True, [])"
    if "members d = Some objs" "map_of d ''type'' = Some (PStr ''bundle'')" "objs \<noteq> []"
      "\<forall>obj\<in>set objs. map_of obj ''type'' \<noteq> None \<and> map_of obj ''id'' \<noteq> None"
  proof -
    from that(4) have "concat (map (member_errors E) objs) = []"
      by (simp add: member_errors_none)
    with that(2,3) have "bundle_errors E d objs = []" by (simp add: bundle_errors_def)
    with validate_bundle_members[OF that(1)] show ?thesis by simp
  qed
  have b: "\<exists>errs. validate_bundle E (Inr d) = Inr (False, errs)
           \<and> errs \<noteq> [] \<and> ''Bundle has no objects'' \<in> set errs"
    if "members d = Some []"
    using validate_bundle_members[OF that] by (simp add: bundle_errors_def)
  have c: "\<exists>v errs. validate_bundle E x = Inr (v, errs) \<and> (v \<longleftrightarrow> errs = [])"
    if "\<forall>e. x = Inl e \<longrightarrow> is_Exception e"
  proof -
    from validate_bundle_returns[OF that] obtain v errs where
      r: "validate_bundle E x = Inr (v, errs)" by blast
    from validate_bundle_valid[OF r] r show ?thesis by blast
  qed
  from a b c show ?thesis
    using validate_bundle_valid[of E x valid errors] validate_bundle_members[of d objs E]
    by blast
qed

theorem validate_bundle_report_witness:
  "members [(''type'', PStr ''bundle''), (''id'', PStr ''bundle--1''),
            (''objects'', PList [PDict [(''type'', PStr ''malware''), (''id'', PStr ''malware--1'')]])]
     = Some [[(''type'', PStr ''malware''), (''id'', PStr ''malware--1'')]]
   \<and> validate_bundle demo_env
        (Inr [(''type'', PStr ''bundle''), (''id'', PStr ''bundle--1''),
              (''objects'', PList [PDict [(''type'', PStr ''malware''), (''id'', PStr ''malware--1'')]])])
       = Inr (True, [])
   \<and> members [(''type'', PStr ''bundle''), (''id'', PStr ''bundle--1'')] = Some []
   \<and> validate_bundle demo_env (Inr [(''type'', PStr ''bundle''), (''id'', PStr ''bundle--1'')])
       = Inr (False, [''Bundle has no objects''])
   \<and> validate_bundle demo_env
        (Inr [(''type'', PStr ''report''),
              (''objects'', PList [PDict [(''type'', PStr ''malware'')]])])
       = Inr (False, [''Invalid bundle type'', ''Object missing id: malware''])"
proof -
  let ?obj = "[(''type'', PStr ''malware''), (''id'', PStr ''malware--1'')]"
  let ?good = "[(''type'', PStr ''bundle''), (''id'', PStr ''bundle--1''),
            (''objects'', PList [PDict ?obj])]"
  let ?empty = "[(''type'', PStr ''bundle''), (''id'', PStr ''bundle--1'')]"
  let ?bad = "[(''type'', PStr ''report''), (''objects'', PList [PDict [(''type'', PStr ''malware'')]])]"
  have m1: "members ?good = Some [?obj]" by (simp add: members_def)
  have m2: "members ?empty = Some []" by (simp add: members_def)
  have m3: "members ?bad = Some [[(''type'', PStr ''malware'')]]" by (simp add: members_def)
  have b1: "bundle_errors demo_env ?good [?obj] = []"
    by (simp add: bundle_errors_def member_errors_def)
  have b2: "bundle_errors demo_env ?empty [] = [''Bundle has no objects'']"
    by (simp add: bundle_errors_def)
  have b3: "bundle_errors demo_env ?bad [[(''type'', PStr ''malware'')]]
      = [''Invalid bundle type'', ''Object missing id: malware'']"
    by (simp add: bundle_errors_def member_errors_def dict_get_def format_def)
  from validate_bundle_report[of demo_env "Inr ?good" _ _ ?good "[?obj]"] m1 b1
  have "validate_bundle demo_env (Inr ?good) = Inr (True, [])" by simp
  moreover from validate_bundle_report[of demo_env "Inr ?empty" _ _ ?empty "[]"] m2 b2
  have "validate_bundle demo_env (Inr ?empty) = Inr (False, [''Bundle has no objects''])" by simp
  moreover from validate_bundle_report[of demo_env "Inr ?bad" _ _ ?bad "[[(''type'', PStr ''malware'')]]"]
    m3 b3
  have "validate_bundle demo_env (Inr ?bad)
       = Inr (False, [''Invalid bundle type'', ''Object missing id: malware''])" by simp
  ultimately show ?thesis using m1 m2 by simp
qed

lemma validate_checks_not_iterable:
  assumes "map_of d ''objects'' = Some v" "py_iter v = Inl e"
  shows "validate_checks E d = Inl e"
  using assms by (simp add: validate_checks_def dict_get_def Let_def)

text \<open>
  Claim C4, as amended. An exception of a class derived from \<^verbatim>\<open>Exception\<close>, raised by
  the serialization or inside the checks, never leaves \<^verbatim>\<open>validate_bundle\<close>: the
  report is then invalid, with the message of the exception as its only error, whatever
  had been accumulated before (as when the \<^verbatim>\<open>objects\<close> entry cannot be iterated). The
  operations of the checks raise no other exceptions, so a report is returned whenever the
  bundle was serialized and nothing interrupts the checks. An exception that does not
  derive from \<^verbatim>\<open>Exception\<close> (\<^verbatim>\<open>KeyboardInterrupt\<close>, \<^verbatim>\<open>SystemExit\<close>,
  \<^verbatim>\<open>GeneratorExit\<close>) leaves the method.
\<close>

theorem validate_bundle_catches:
  "(is_Exception e \<longrightarrow> validate_bundle E (Inl e) = Inr (False, [exn_message e]))
   \<and> (validate_checks E d = Inl e \<longrightarrow>
        is_Exception e \<and> validate_bundle E (Inr d) = Inr (False, [exn_message e]))
   \<and> (map_of d ''objects'' = Some v \<and> py_iter v = Inl e
        \<longrightarrow> validate_bundle E (Inr d) = Inr (False, [exn_message e]))
   \<and> (\<exists>valid errors. validate_bundle E (Inr d) = Inr (valid, errors))
   \<and> (\<not> is_Exception e \<longrightarrow> validate_bundle E (Inl e) = Inl e)"
proof -
  have a: "is_Exception e \<and> validate_bundle E (Inr d) = Inr (False, [exn_message e])"
    if "validate_checks E d = Inl e"
    using that validate_checks_raises[OF that]
    by (simp add: validate_bundle_def except_Exception_def)
  have b: "validate_bundle E (Inr d) = Inr (False, [exn_message e])"
    if "map_of d ''objects'' = Some v" "py_iter v = Inl e"
    using a[OF validate_checks_not_iterable[OF that]] by simp
  have c: "\<exists>valid errors. validate_bundle E (Inr d) = Inr (valid, errors)"
    by (rule validate_bundle_returns) simp
  from a b c show ?thesis
    by (simp add: validate_bundle_def except_Exception_def)
qed

theorem validate_bundle_catches_witness:
  "is_Exception (OSError ''disk'')
   \<and> validate_bundle demo_env (Inl (OSError ''disk'')) = Inr (False, [''disk''])
   \<and> validate_checks demo_env [(''type'', PStr ''report''), (''objects'', PNone)]
     = Inl (not_iterable PNone)
   \<and> validate_bundle demo_env (Inr [(''type'', PStr ''report''), (''objects'', PNone)])
     = Inr (False, [CHR 0x27 # ''NoneType'' @ CHR 0x27 # '' object is not iterable''])
   \<and> \<not> is_Exception (SystemExit ''1'')
   \<and> validate_bundle demo_env (Inl (SystemExit ''1'')) = Inl (SystemExit ''1'')"
proof -
  let ?d = "[(''type'', PStr ''report''), (''objects'', PNone)]"
  have c: "validate_checks demo_env ?d = Inl (not_iterable PNone)"
    by (rule validate_checks_not_iterable[of _ PNone]) simp_all
  from validate_bundle_catches[of "OSError ''disk''" demo_env]
  have x1: "validate_bundle demo_env (Inl (OSError ''disk'')) = Inr (False, [''disk''])" by simp
  from validate_bundle_catches[of "not_iterable PNone" demo_env ?d] c
  have x2: "validate_bundle demo_env (Inr ?d)
     = Inr (False, [CHR 0x27 # ''NoneType'' @ CHR 0x27 # '' object is not iterable''])"
    by (simp add: not_iterable_def)
  from validate_bundle_catches[of "SystemExit ''1''" demo_env]
  have x3: "validate_bundle demo_env (Inl (SystemExit ''1'')) = Inl (SystemExit ''1'')" by simp
  from c x1 x2 x3 show ?thesis by simp
qed

theorem validate_bundle_interrupt_counterexample:
  "validate_bundle demo_env (Inl (KeyboardInterrupt [])) = Inl (KeyboardInterrupt [])"
  by (simp add: validate_bundle_def except_Exception_def)

section \<open>The lists of a session\<close>

lemma indicators_loop_result:
  assumes "indicators_loop E opts lines inds st = (r, st1)"
  shows "\<exists>new. extends st st1 new \<and> (\<forall>obj\<in>set new. obj_type obj = ''indicator'')
           \<and> (\<forall>res. r = Inr res \<longrightarrow> res = inds @ new)"
  using assms
proof (induction lines arbitrary: inds st)
  case Nil
  then have "extends st st1 []" "r = Inr inds" by (auto simp: extends_refl)
  then show ?case by auto
next
  case (Cons line rest)
  show ?case
  proof (cases "strip line \<noteq> [] \<and> \<not> prefix ''#'' (strip line)")
    case False
    with Cons.prems have "indicators_loop E opts rest inds st = (r, st1)"
      by (simp add: Let_def)
    from Cons.IH[OF this] show ?thesis .
  next
    case True
    obtain ri si where gi: "generate_indicator E st (strip line) opts = (ri, si)"
      by (cases "generate_indicator E st (strip line) opts")
    note g = generate_indicator_result[OF gi]
    show ?thesis
    proof (cases ri)
      case (Inl e)
      with Cons.prems True gi have "st1 = si" "\<forall>res. r \<noteq> Inr res" by (auto simp: Let_def)
      with g(1) show ?thesis by auto
    next
      case (Inr x)
      show ?thesis
      proof (cases x)
        case None
        with Cons.prems True gi Inr have "indicators_loop E opts rest inds si = (r, st1)"
          by (simp add: Let_def)
        from Cons.IH[OF this] obtain new where
          "extends si st1 new" "\<forall>obj\<in>set new. obj_type obj = ''indicator''"
          "\<forall>res. r = Inr res \<longrightarrow> res = inds @ new" by blast
        with extends_trans[OF g(1)] show ?thesis by fastforce
      next
        case (Some ind)
        with Inr g(2) have it: "obj_type ind = ''indicator''" by simp
        let ?s2 = "si\<lparr>objects := objects si @ [ind]\<rparr>"
        from Cons.prems True gi Inr Some
        have "indicators_loop E opts rest (inds @ [ind]) ?s2 = (r, st1)"
          by (simp add: Let_def)
        from Cons.IH[OF this] obtain new where
          e: "extends ?s2 st1 new" and t: "\<forall>obj\<in>set new. obj_type obj = ''indicator''"
          and res: "\<forall>res. r = Inr res \<longrightarrow> res = (inds @ [ind]) @ new" by blast
        have "extends si ?s2 [ind]"
          using it by (intro append_object_extends) simp
        from extends_trans[OF extends_trans[OF g(1) this] e]
        have "extends st st1 ([ind] @ new)" by simp
        moreover have "\<forall>obj\<in>set ([ind] @ new). obj_type obj = ''indicator''"
          using it t by simp
        moreover have "\<forall>res. r = Inr res \<longrightarrow> res = inds @ ([ind] @ new)"
          using res by simp
        ultimately show ?thesis by blast
      qed
    qed
  qed
qed

lemma generate_indicators_from_file_result:
  assumes "generate_indicators_from_file E st src opts = (r, st1)"
  shows "\<exists>new. extends st st1 new \<and> (\<forall>obj\<in>set new. obj_type obj = ''indicator'')
           \<and> (\<forall>res. r = Inr res \<longrightarrow> res = new)"
proof (cases src)
  case (Inl e)
  with assms have "st1 = st" "\<forall>res. r \<noteq> Inr res"
    by (auto simp: generate_indicators_from_file_def)
  then show ?thesis using extends_refl[of st] by auto
next
  case (Inr content)
  obtain lines failure where content: "content = (lines, failure)" by (cases content)
  obtain rl sl where l: "indicators_loop E opts lines [] st = (rl, sl)"
    by (cases "indicators_loop E opts lines [] st")
  from indicators_loop_result[OF l] obtain new where
    n: "extends st sl new" "\<forall>obj\<in>set new. obj_type obj = ''indicator''"
      "\<forall>res. rl = Inr res \<longrightarrow> res = new" by auto
  from assms Inr content l have "st1 = sl" "\<forall>res. r = Inr res \<longrightarrow> rl = Inr res"
    by (auto simp: generate_indicators_from_file_def split: sum.splits option.splits)
  with n show ?thesis by blast
qed

lemma create_bundle_extends: "create_bundle E st = (r, st1) \<Longrightarrow> extends st st1 []"
  by (auto simp: create_bundle_def extends_def split: option.splits)

lemma after_extends: "\<exists>new. extends st (after E st c) new"
proof (cases c)
  case (GenerateIndicator ioc opts)
  obtain r s where "generate_indicator E st ioc opts = (r, s)"
    by (cases "generate_indicator E st ioc opts")
  with GenerateIndicator generate_indicator_result(1)[OF this] show ?thesis by auto
next
  case (GenerateIndicatorsFromFile src opts)
  obtain r s where "generate_indicators_from_file E st src opts = (r, s)"
    by (cases "generate_indicators_from_file E st src opts")
  with GenerateIndicatorsFromFile generate_indicators_from_file_result[OF this]
  show ?thesis by auto
next
  case (GenerateAttackPattern tid name descr)
  obtain r s where "generate_attack_pattern E st tid name descr = (r, s)"
    by (cases "generate_attack_pattern E st tid name descr")
  with GenerateAttackPattern generate_attack_pattern_extends[OF this] show ?thesis by auto
next
  case (GenerateMalware config)
  obtain r s where "generate_malware E st config = (r, s)"
    by (cases "generate_malware E st config")
  with GenerateMalware generate_malware_extends[OF this] show ?thesis by auto
next
  case (GenerateThreatActor config)
  obtain r s where "generate_threat_actor E st config = (r, s)"
    by (cases "generate_threat_actor E st config")
  with GenerateThreatActor generate_threat_actor_extends[OF this] show ?thesis by auto
next
  case (GenerateCampaign config)
  obtain r s where "generate_campaign E st config = (r, s)"
    by (cases "generate_campaign E st config")
  with GenerateCampaign generate_campaign_extends[OF this] show ?thesis by auto
next
  case CreateBundle
  obtain r s where "create_bundle E st = (r, s)" by (cases "create_bundle E st")
  with CreateBundle create_bundle_extends[OF this] show ?thesis by auto
qed

lemma run_extends: "\<exists>new. extends st (run E st calls) new"
proof (induction calls arbitrary: st)
  case Nil
  show ?case using extends_refl[of st] by (auto simp: run_def)
next
  case (Cons c rest)
  from after_extends obtain n1 where "extends st (after E st c) n1" by blast
  moreover from Cons obtain n2 where "extends (after E st c) (run E (after E st c) rest) n2"
    by blast
  ultimately have "extends st (run E (after E st c) rest) (n1 @ n2)" by (rule extends_trans)
  then show ?case by (auto simp: run_def)
qed

lemma new_session_empty:
  "new_session E ident = Inr st0 \<Longrightarrow>
   objects st0 = [] \<and> relationships st0 = [] \<and> filter is_rel (created st0) = []"
  by (auto simp: new_session_def Let_def is_rel_def split: option.splits)

text \<open>
  Claim C10. A session starts with both lists empty. After any sequence of generator
  calls, returned or raised, the relationships the session has had built, in the order of
  their construction, are the relationship list, and the relationship list is the object
  list restricted to its relationships: every relationship ever built is in both lists,
  and the relationship list is an ordered sublist of the object list. From any session,
  the calls append some objects to the object list, the relationships among them to the
  relationship list, and these are the relationships built meanwhile; neither list ever
  loses an element, and the sublist relation is kept.
\<close>

theorem relationships_within_objects:
  "(new_session E ident = Inr st0 \<longrightarrow>
      objects st0 = [] \<and> relationships st0 = []
      \<and> filter is_rel (created (run E st0 calls)) = relationships (run E st0 calls)
      \<and> relationships (run E st0 calls) = filter is_rel (objects (run E st0 calls))
      \<and> subseq (relationships (run E st0 calls)) (objects (run E st0 calls))
      \<and> set (filter is_rel (created (run E st0 calls)))
          \<subseteq> set (relationships (run E st0 calls)) \<inter> set (objects (run E st0 calls)))
   \<and> (\<exists>new. objects (run E st calls) = objects st @ new
         \<and> relationships (run E st calls) = relationships st @ filter is_rel new
         \<and> filter is_rel (created (run E st calls))
             = filter is_rel (created st) @ filter is_rel new)
   \<and> (subseq (relationships st) (objects st) \<longrightarrow>
        subseq (relationships (run E st calls)) (objects (run E st calls)))
   \<and> prefix (relationships st) (relationships (run E st calls))
   \<and> prefix (objects st) (objects (run E st calls))"
proof -
  from run_extends[of st E calls] obtain new where e: "extends st (run E st calls) new"
    by blast
  then have p: "prefix (relationships st) (relationships (run E st calls))"
    "prefix (objects st) (objects (run E st calls))"
    by (simp_all add: extends_def)
  from e have x: "\<exists>new. objects (run E st calls) = objects st @ new
         \<and> relationships (run E st calls) = relationships st @ filter is_rel new
         \<and> filter is_rel (created (run E st calls))
             = filter is_rel (created st) @ filter is_rel new"
    unfolding extends_def by blast
  have s: "subseq (relationships (run E st calls)) (objects (run E st calls))"
    if "subseq (relationships st) (objects st)"
  proof -
    have "subseq (filter is_rel new) new" by simp
    with that have "subseq (relationships st @ filter is_rel new) (objects st @ new)"
      by (rule list_emb_append_mono)
    with e show ?thesis by (simp add: extends_def)
  qed
  have n: "objects st0 = [] \<and> relationships st0 = []
      \<and> filter is_rel (created (run E st0 calls)) = relationships (run E st0 calls)
      \<and> relationships (run E st0 calls) = filter is_rel (objects (run E st0 calls))
      \<and> subseq (relationships (run E st0 calls)) (objects (run E st0 calls))
      \<and> set (filter is_rel (created (run E st0 calls)))
          \<subseteq> set (relationships (run E st0 calls)) \<inter> set (objects (run E st0 calls))"
    if "new_session E ident = Inr st0"
  proof -
    from new_session_empty[OF that] have z: "objects st0 = []" "relationships st0 = []"
      "filter is_rel (created st0) = []"
      by simp_all
    from run_extends[of st0 E calls] obtain new0 where "extends st0 (run E st0 calls) new0"
      by blast
    with z have "objects (run E st0 calls) = new0"
      "relationships (run E st0 calls) = filter is_rel new0"
      "filter is_rel (created (run E st0 calls)) = filter is_rel new0"
      by (simp_all add: extends_def)
    with z show ?thesis by auto
  qed
  from p s n x show ?thesis by blast
qed

theorem relationships_within_objects_witness:
  "new_session demo_env None = Inr demo_session
   \<and> length (relationships (run demo_env demo_session [GenerateCampaign (PDict demo_campaign)]))
       = 4
   \<and> filter is_rel (created (run demo_env demo_session [GenerateCampaign (PDict demo_campaign)]))
      = relationships (run demo_env demo_session [GenerateCampaign (PDict demo_campaign)])
   \<and> subseq (relationships (run demo_env demo_session [GenerateCampaign (PDict demo_campaign)]))
        (objects (run demo_env demo_session [GenerateCampaign (PDict demo_campaign)]))
   \<and> relationships (run demo_env demo_session [GenerateCampaign (PDict demo_campaign)])
      = filter is_rel (objects (run demo_env demo_session [GenerateCampaign (PDict demo_campaign)]))"
proof -
  have n: "new_session demo_env None = Inr demo_session"
    by (simp add: new_session_def demo_env_def demo_session_def Let_def)
  from demo_campaign_returns obtain campaign st1 where
    r: "generate_campaign demo_env demo_session (PDict demo_campaign) = (Inr campaign, st1)"
    by blast
  from campaign_structure[OF demo_campaign_shape(1) demo_campaign_shape(2) r]
  obtain actor_rels attributed uses1 uses2 where
    "produced demo_session st1 = actor_rels @ [attributed, uses1, uses2]"
    "length actor_rels = valid_ttps demo_actor"
    by blast
  moreover have "relationships demo_session = []" by (simp add: demo_session_def)
  ultimately have "length (relationships st1) = 4"
    by (simp add: produced_def valid_ttps_demo)
  with r have l: "length (relationships
       (run demo_env demo_session [GenerateCampaign (PDict demo_campaign)])) = 4"
    by (simp add: run_def)
  from relationships_within_objects[of demo_env None demo_session
      "[GenerateCampaign (PDict demo_campaign)]" demo_session] n l
  show ?thesis by simp
qed

lemma generate_indicator_Some:
  assumes "generate_indicator E st ioc opts = (Inr (Some ind), st1)"
  shows "\<exists>t. detect_ioc_type ioc = Some t
           \<and> obj_prop ind ''pattern'' = Some (PStr (create_indicator_pattern ioc t))"
proof (cases "detect_ioc_type ioc")
  case None
  with assms show ?thesis by (simp add: generate_indicator_def)
next
  case (Some t)
  with assms obtain kw where n: "new_object E ''indicator'' kw st = (Inr ind, st1)"
    and kw: "map_of kw ''pattern'' = Some (PStr (create_indicator_pattern ioc t))"
    unfolding generate_indicator_def Let_def
    by (auto split: prod.splits sum.splits)
  from new_object_Inr(2)[OF n] kw Some show ?thesis by (simp add: obj_prop_def)
qed

lemma generate_indicator_returns:
  assumes "check E = (\<lambda>kind kwargs. None)" "detect_ioc_type ioc = Some t"
  shows "\<exists>ind st1. generate_indicator E st ioc opts = (Inr (Some ind), st1)"
  using assms by (simp add: generate_indicator_def Let_def new_object_def)

lemma generate_campaign_Inr:
  assumes "generate_campaign E st config = (Inr campaign, st1)"
  shows "\<exists>new. extends st st1 (campaign # new)"
proof -
  from assms obtain cfg where c: "config = PDict cfg"
    using generate_campaign_not_dict[of config E st "Inr campaign" st1] by auto
  with assms have a: "generate_campaign E st (PDict cfg) = (Inr campaign, st1)" by simp
  from generate_campaign_dict[OF a] obtain s2 s3 where
    e1: "extends st s2 [campaign]"
    and cta: "campaign_threat_actor E campaign cfg s2 = (Inr (), s3)"
    and cmw: "campaign_malware E campaign cfg s3 = (Inr (), st1)"
    by auto
  from campaign_threat_actor_extends[OF cta] obtain n2 where e2: "extends s2 s3 n2" by blast
  from campaign_malware_extends[OF cmw] obtain n3 where e3: "extends s3 st1 n3" by blast
  from extends_trans[OF extends_trans[OF e1 e2] e3] show ?thesis by auto
qed

lemma generate_indicator_created:
  assumes "generate_indicator E st ioc opts = (Inr (Some ind), st1)"
  shows "created st1 = created st @ [ind]"
proof (cases "detect_ioc_type ioc")
  case None
  with assms show ?thesis by (simp add: generate_indicator_def)
next
  case (Some t)
  with assms obtain kw where n: "new_object E ''indicator'' kw st = (Inr ind, st1)"
    unfolding generate_indicator_def Let_def
    by (auto split: prod.splits sum.splits)
  from new_object_Inr(4)[OF n] show ?thesis by simp
qed

text \<open>
  What the other generators do: a successful generation of an attack pattern, a malware,
  a threat actor or a campaign appends the new object to the object list of the session,
  followed by the objects and relationships it induces; the relationships among them go
  to the relationship list as well, and they are the relationships built by the call.
  \<^verbatim>\<open>generate_indicators_from_file\<close> appends the indicators it returns.
\<close>

lemma generators_record:
  "(generate_attack_pattern E st tid name descr = (Inr (Some ap), st1)
      \<longrightarrow> extends st st1 [ap])
   \<and> (generate_malware E st config = (Inr obj, st1) \<longrightarrow> extends st st1 [obj])
   \<and> (generate_threat_actor E st config = (Inr obj, st1) \<longrightarrow>
        (\<exists>new. extends st st1 (obj # new) \<and> produced st st1 = filter is_rel new))
   \<and> (generate_campaign E st config = (Inr obj, st1) \<longrightarrow>
        (\<exists>new. extends st st1 (obj # new) \<and> produced st st1 = filter is_rel new))
   \<and> (generate_indicators_from_file E st src opts = (Inr indicators, st1)
        \<longrightarrow> extends st st1 indicators)"
proof -
  have a: "extends st st1 [ap]"
    if "generate_attack_pattern E st tid name descr = (Inr (Some ap), st1)"
    using generate_attack_pattern_Some(3)[OF that] .
  have b: "extends st st1 [obj]" if "generate_malware E st config = (Inr obj, st1)"
    using generate_malware_Inr(2)[OF that] .
  have c: "\<exists>new. extends st st1 (obj # new) \<and> produced st st1 = filter is_rel new"
    if "generate_threat_actor E st config = (Inr obj, st1)"
  proof -
    from generate_threat_actor_Inr[OF that] obtain new where
      e: "extends st st1 (obj # new)" and "obj_type obj = ''threat-actor''" by blast
    then have "produced st st1 = filter is_rel new"
      using produced_extends[OF e] by (simp add: is_rel_def)
    with e show ?thesis by blast
  qed
  have d: "\<exists>new. extends st st1 (obj # new) \<and> produced st st1 = filter is_rel new"
    if "generate_campaign E st config = (Inr obj, st1)"
  proof -
    from generate_campaign_Inr[OF that] obtain new where e: "extends st st1 (obj # new)"
      by blast
    from that obtain cfg where "config = PDict cfg"
      using generate_campaign_not_dict[of config E st "Inr obj" st1] by auto
    with that generate_campaign_dict[of E st cfg "Inr obj" st1]
    have "obj_type obj = ''campaign''" by auto
    with e have "produced st st1 = filter is_rel new"
      using produced_extends[OF e] by (simp add: is_rel_def)
    with e show ?thesis by blast
  qed
  have e: "extends st st1 indicators"
    if "generate_indicators_from_file E st src opts = (Inr indicators, st1)"
    using generate_indicators_from_file_result[OF that] by auto
  from a b c d e show ?thesis by blast
qed

lemma generate_indicator_unchanged:
  "generate_indicator E st ioc opts = (r, st1)
   \<Longrightarrow> objects st1 = objects st \<and> relationships st1 = relationships st"
  using generate_indicator_result(1)[of E st ioc opts r st1] by (simp add: extends_def)

lemma detect_192: "detect_ioc_type ''192.0.2.1'' = Some ''ipv4''"
  using dotted_quad_ipv4[of "''192''" "''0''" "''2''" "''1''"]
  by (simp add: digit_group_def digits_def)

text \<open>
  Claim C6. On a new session, \<^verbatim>\<open>generate_indicator("192.0.2.1")\<close> returns an indicator
  that the session has built, and leaves the object list and the relationship list
  empty: the new object is returned without being recorded. On the same session
  \<^verbatim>\<open>generate_malware\<close> and \<^verbatim>\<open>generate_attack_pattern\<close> return their object with the
  object list holding it.
\<close>

theorem generate_indicator_unrecorded:
  "new_session demo_env None = Inr demo_session
   \<and> \<not> isl (fst (generate_indicator demo_env demo_session ''192.0.2.1'' demo_opts))
   \<and> projr (fst (generate_indicator demo_env demo_session ''192.0.2.1'' demo_opts)) \<noteq> None
   \<and> the (projr (fst (generate_indicator demo_env demo_session ''192.0.2.1'' demo_opts)))
       \<in> set (created (snd (generate_indicator demo_env demo_session ''192.0.2.1'' demo_opts)))
   \<and> objects (snd (generate_indicator demo_env demo_session ''192.0.2.1'' demo_opts)) = []
   \<and> relationships (snd (generate_indicator demo_env demo_session ''192.0.2.1'' demo_opts)) = []
   \<and> \<not> isl (fst (generate_malware demo_env demo_session (PDict [])))
   \<and> objects (snd (generate_malware demo_env demo_session (PDict [])))
       = [projr (fst (generate_malware demo_env demo_session (PDict [])))]
   \<and> \<not> isl (fst (generate_attack_pattern demo_env demo_session ''T1055'' None None))
   \<and> map Some (objects (snd (generate_attack_pattern demo_env demo_session ''T1055'' None None)))
       = [projr (fst (generate_attack_pattern demo_env demo_session ''T1055'' None None))]"
proof -
  have n: "new_session demo_env None = Inr demo_session"
    by (simp add: new_session_def demo_env_def demo_session_def Let_def)
  have z: "objects demo_session = []" "relationships demo_session = []"
    by (simp_all add: demo_session_def)
  from generate_indicator_returns[OF demo_env_accepts(1) detect_192] obtain ind st1 where
    r: "generate_indicator demo_env demo_session ''192.0.2.1'' demo_opts = (Inr (Some ind), st1)"
    by blast
  from generate_indicator_unchanged[OF r] z
  have i1: "objects st1 = []" "relationships st1 = []" by simp_all
  from generate_indicator_created[OF r] have i2: "ind \<in> set (created st1)" by simp
  from generate_malware_returns[OF demo_env_accepts(1)] obtain m sm where
    gm: "generate_malware demo_env demo_session (PDict []) = (Inr m, sm)" by blast
  from generate_malware_Inr(2)[OF gm] z have m1: "objects sm = [m]"
    by (simp add: extends_def)
  from generate_attack_pattern_returns[OF demo_env_accepts(1)] obtain x sa where
    ga: "generate_attack_pattern demo_env demo_session ''T1055'' None None = (Inr x, sa)"
    by blast
  have "\<exists>ap. x = Some ap"
  proof (cases x)
    case None
    with ga have "\<not> re_match TECHNIQUE_PATTERN ''T1055''"
      by (simp add: generate_attack_pattern_None)
    with technique_T1055 show ?thesis by simp
  qed simp
  then obtain ap where x: "x = Some ap" by blast
  from generate_attack_pattern_Some(3)[OF ga[unfolded x]] z have a1: "objects sa = [ap]"
    by (simp add: extends_def)
  from n show ?thesis by (simp add: r i1 i2 gm m1 ga x a1)
qed

section \<open>The pattern synthesizer\<close>

lemma lower_hexdigits: "map lower_char hexdigits = ''abcdefabcdef0123456789''"
  by code_simp

lemma lower_hexdigit:
  assumes "c \<in> set hexdigits"
  shows "lower_char c \<in> set ''abcdef0123456789''"
proof -
  from assms have "lower_char c \<in> set (map lower_char hexdigits)" by simp
  then have "lower_char c \<in> set ''abcdefabcdef0123456789''" by (simp only: lower_hexdigits)
  then show ?thesis by auto
qed

lemma lower_hex_string:
  "list_all (\<lambda>c. c \<in> set hexdigits) h
   \<Longrightarrow> list_all (\<lambda>c. c \<in> set ''abcdef0123456789'') (lower h)"
  unfolding lower_def list_all_iff using lower_hexdigit by auto

lemma lower_ascii_table:
  "map lower_char (map char_of [0..<128::nat]) = map ascii_lower (map char_of [0..<128::nat])"
  by code_simp

lemma lower_char_ascii:
  assumes "of_char c < (128::nat)"
  shows "lower_char c = ascii_lower c"
proof -
  from assms have "of_char c \<in> set [0..<128::nat]" by simp
  then have "char_of (of_char c :: nat) \<in> set (map char_of [0..<128::nat])"
    unfolding set_map by (rule imageI)
  then have "c \<in> set (map char_of [0..<128::nat])" by simp
  with lower_ascii_table show ?thesis by (simp only: map_eq_conv)
qed

lemma lower_ascii:
  "list_all (\<lambda>c. of_char c < (128::nat)) v \<Longrightarrow> lower v = map ascii_lower v"
  by (simp add: lower_def list_all_iff lower_char_ascii)

text \<open>
  Claim C8. Pattern synthesis is a function of the value and the type tag with no failing
  branch. For each of the eight recognized tags it yields the template of that tag
  around the value, lower-cased for the three hash tags; for any other tag it yields the
  generic template with the tag as the field name. Lower-casing keeps the length of the
  value, and on an ASCII value it replaces each capital letter by its small letter and
  leaves every other character: the hash templates are then around the value so
  rewritten, and a lower-cased string of hexadecimal digits has no capital. For the IOC
  \<^verbatim>\<open>192.0.2.1\<close> the pattern of the indicator that \<^verbatim>\<open>generate_indicator\<close> builds is
  the ipv4 template around it.
\<close>

theorem create_indicator_pattern_templates:
  "create_indicator_pattern v ''ipv4''
     = ''[network-traffic:dst_ref.type = 'ipv4-addr' AND network-traffic:dst_ref.value = ''
       @ CHR 0x27 # v @ CHR 0x27 # '']''
   \<and> create_indicator_pattern v ''ipv6''
     = ''[network-traffic:dst_ref.type = 'ipv6-addr' AND network-traffic:dst_ref.value = ''
       @ CHR 0x27 # v @ CHR 0x27 # '']''
   \<and> create_indicator_pattern v ''domain'' = ''[domain-name:value = '' @ CHR 0x27 # v @ CHR 0x27 # '']''
   \<and> create_indicator_pattern v ''url'' = ''[url:value = '' @ CHR 0x27 # v @ CHR 0x27 # '']''
   \<and> create_indicator_pattern v ''email'' = ''[email-addr:value = '' @ CHR 0x27 # v @ CHR 0x27 # '']''
   \<and> create_indicator_pattern v ''md5'' = ''[file:hashes.MD5 = '' @ CHR 0x27 # lower v @ CHR 0x27 # '']''
   \<and> create_indicator_pattern v ''sha1'' = ''[file:hashes.SHA-1 = '' @ CHR 0x27 # lower v @ CHR 0x27 # '']''
   \<and> create_indicator_pattern v ''sha256''
     = ''[file:hashes.SHA-256 = '' @ CHR 0x27 # lower v @ CHR 0x27 # '']''
   \<and> length (lower v) = length v
   \<and> (list_all (\<lambda>c. of_char c < (128::nat)) v \<longrightarrow>
        lower v = map ascii_lower v
        \<and> create_indicator_pattern v ''md5''
            = ''[file:hashes.MD5 = '' @ CHR 0x27 # map ascii_lower v @ CHR 0x27 # '']''
        \<and> create_indicator_pattern v ''sha1''
            = ''[file:hashes.SHA-1 = '' @ CHR 0x27 # map ascii_lower v @ CHR 0x27 # '']''
        \<and> create_indicator_pattern v ''sha256''
            = ''[file:hashes.SHA-256 = '' @ CHR 0x27 # map ascii_lower v @ CHR 0x27 # '']'')
   \<and> (list_all (\<lambda>c. c \<in> set hexdigits) v
        \<longrightarrow> list_all (\<lambda>c. c \<in> set ''abcdef0123456789'') (lower v))
   \<and> (t \<notin> set [''ipv4'', ''ipv6'', ''domain'', ''url'', ''email'', ''md5'', ''sha1'', ''sha256'']
        \<longrightarrow> create_indicator_pattern v t = ''['' @ t @ '':value = '' @ CHR 0x27 # v @ CHR 0x27 # '']'')
   \<and> create_indicator_pattern ''192.0.2.1'' ''ipv4''
     = ''[network-traffic:dst_ref.type = 'ipv4-addr' AND network-traffic:dst_ref.value = '192.0.2.1']''
   \<and> (generate_indicator E st ''192.0.2.1'' opts = (Inr (Some ind), st1)
        \<longrightarrow> obj_prop ind ''pattern''
            = Some (PStr ''[network-traffic:dst_ref.type = 'ipv4-addr' AND network-traffic:dst_ref.value = '192.0.2.1']''))"
proof -
  have other: "create_indicator_pattern v t = ''['' @ t @ '':value = '' @ CHR 0x27 # v @ CHR 0x27 # '']''"
    if "t \<notin> set [''ipv4'', ''ipv6'', ''domain'', ''url'', ''email'', ''md5'', ''sha1'', ''sha256'']"
  proof -
    from that have "map_of (patterns v) t = None"
      by (simp add: patterns_def)
    then show ?thesis by (simp add: create_indicator_pattern_def)
  qed
  have ip: "create_indicator_pattern ''192.0.2.1'' ''ipv4''
     = ''[network-traffic:dst_ref.type = 'ipv4-addr' AND network-traffic:dst_ref.value = '192.0.2.1']''"
    by (simp add: create_indicator_pattern_def patterns_def)
  have ind: "obj_prop ind ''pattern''
            = Some (PStr ''[network-traffic:dst_ref.type = 'ipv4-addr' AND network-traffic:dst_ref.value = '192.0.2.1']'')"
    if "generate_indicator E st ''192.0.2.1'' opts = (Inr (Some ind), st1)"
    using generate_indicator_Some[OF that] detect_192 ip by auto
  have len: "length (lower v) = length v" by (simp add: lower_def)
  have asc: "lower v = map ascii_lower v
        \<and> create_indicator_pattern v ''md5''
            = ''[file:hashes.MD5 = '' @ CHR 0x27 # map ascii_lower v @ CHR 0x27 # '']''
        \<and> create_indicator_pattern v ''sha1''
            = ''[file:hashes.SHA-1 = '' @ CHR 0x27 # map ascii_lower v @ CHR 0x27 # '']''
        \<and> create_indicator_pattern v ''sha256''
            = ''[file:hashes.SHA-256 = '' @ CHR 0x27 # map ascii_lower v @ CHR 0x27 # '']''"
    if "list_all (\<lambda>c. of_char c < (128::nat)) v"
    using lower_ascii[OF that] by (simp add: create_indicator_pattern_def patterns_def)
  have fixed: "create_indicator_pattern v ''ipv4''
     = ''[network-traffic:dst_ref.type = 'ipv4-addr' AND network-traffic:dst_ref.value = ''
       @ CHR 0x27 # v @ CHR 0x27 # '']''
   \<and> create_indicator_pattern v ''ipv6''
     = ''[network-traffic:dst_ref.type = 'ipv6-addr' AND network-traffic:dst_ref.value = ''
       @ CHR 0x27 # v @ CHR 0x27 # '']''
   \<and> create_indicator_pattern v ''domain'' = ''[domain-name:value = '' @ CHR 0x27 # v @ CHR 0x27 # '']''
   \<and> create_indicator_pattern v ''url'' = ''[url:value = '' @ CHR 0x27 # v @ CHR 0x27 # '']''
   \<and> create_indicator_pattern v ''email'' = ''[email-addr:value = '' @ CHR 0x27 # v @ CHR 0x27 # '']''
   \<and> create_indicator_pattern v ''md5'' = ''[file:hashes.MD5 = '' @ CHR 0x27 # lower v @ CHR 0x27 # '']''
   \<and> create_indicator_pattern v ''sha1'' = ''[file:hashes.SHA-1 = '' @ CHR 0x27 # lower v @ CHR 0x27 # '']''
   \<and> create_indicator_pattern v ''sha256''
     = ''[file:hashes.SHA-256 = '' @ CHR 0x27 # lower v @ CHR 0x27 # '']''"
    by (simp add: create_indicator_pattern_def patterns_def)
  from fixed len asc lower_hex_string[of v] other ip ind show ?thesis by blast
qed

theorem create_indicator_pattern_templates_witness:
  "''asn'' \<notin> set [''ipv4'', ''ipv6'', ''domain'', ''url'', ''email'', ''md5'', ''sha1'', ''sha256'']
   \<and> create_indicator_pattern ''AS64500'' ''asn'' = ''[asn:value = 'AS64500']''
   \<and> list_all (\<lambda>c. of_char c < (128::nat)) ''0A1b''
   \<and> lower ''0A1b'' = ''0a1b''
   \<and> create_indicator_pattern ''0A1b'' ''md5'' = ''[file:hashes.MD5 = '0a1b']''
   \<and> create_indicator_pattern ''0A1b'' ''sha256'' = ''[file:hashes.SHA-256 = '0a1b']''
   \<and> list_all (\<lambda>c. c \<in> set hexdigits) ''0A1b''
   \<and> list_all (\<lambda>c. c \<in> set ''abcdef0123456789'') (lower ''0A1b'')
   \<and> \<not> isl (fst (generate_indicator demo_env demo_session ''192.0.2.1'' demo_opts))
   \<and> obj_prop (the (projr (fst (generate_indicator demo_env demo_session ''192.0.2.1'' demo_opts))))
        ''pattern''
      = Some (PStr ''[network-traffic:dst_ref.type = 'ipv4-addr' AND network-traffic:dst_ref.value = '192.0.2.1']'')"
proof -
  from generate_indicator_returns[OF demo_env_accepts(1) detect_192] obtain ind st1 where
    r: "generate_indicator demo_env demo_session ''192.0.2.1'' demo_opts = (Inr (Some ind), st1)"
    by blast
  have h: "list_all (\<lambda>c. c \<in> set hexdigits) ''0A1b''" by (simp add: hexdigits_def)
  have g: "list_all (\<lambda>c. of_char c < (128::nat)) ''0A1b''" by simp
  have m: "map ascii_lower ''0A1b'' = ''0a1b''" by (simp add: ascii_lower_def)
  from create_indicator_pattern_templates[of "''AS64500''" "''asn''" demo_env demo_session
      demo_opts ind st1] r
  have a: "create_indicator_pattern ''AS64500'' ''asn'' = ''[asn:value = 'AS64500']''"
    and b: "obj_prop ind ''pattern''
      = Some (PStr ''[network-traffic:dst_ref.type = 'ipv4-addr' AND network-traffic:dst_ref.value = '192.0.2.1']'')"
    by simp_all
  from create_indicator_pattern_templates[of "''0A1b''" "''asn''" demo_env demo_session
      demo_opts ind st1] h g
  have c: "list_all (\<lambda>c. c \<in> set ''abcdef0123456789'') (lower ''0A1b'')"
    and d: "lower ''0A1b'' = map ascii_lower ''0A1b''"
    and e: "create_indicator_pattern ''0A1b'' ''md5''
            = ''[file:hashes.MD5 = '' @ CHR 0x27 # map ascii_lower ''0A1b'' @ CHR 0x27 # '']''"
    and f: "create_indicator_pattern ''0A1b'' ''sha256''
            = ''[file:hashes.SHA-256 = '' @ CHR 0x27 # map ascii_lower ''0A1b'' @ CHR 0x27 # '']''"
    by blast+
  from a b c h g d[unfolded m] e[unfolded m] f[unfolded m] show ?thesis by (simp add: r)
qed

section \<open>Technique identifiers\<close>

lemma technique_format_lang: "technique_format s \<longleftrightarrow> s \<in> lang TECHNIQUE_PATTERN"
proof -
  let ?D = "\<lambda>c. c \<in> set digits"
  have L: "lang TECHNIQUE_PATTERN =
      {CHR ''T'' # ds | ds. length ds = 4 \<and> list_all ?D ds}
      \<union> {CHR ''T'' # ds @ CHR ''.'' # es | ds es.
           length ds = 4 \<and> list_all ?D ds \<and> length es = 3 \<and> list_all ?D es}"
    unfolding TECHNIQUE_PATTERN_def opt_def one_of_def chr_def lang.simps lang_exactly_Sym conc_def
    by auto
  show ?thesis
  proof
    assume f: "technique_format s"
    then obtain xs where s: "s = CHR ''T'' # xs"
      by (cases s) (auto simp: technique_format_def)
    from f s consider "length xs = 4" "list_all ?D xs"
      | "length xs = 8" "list_all ?D (take 4 xs)" "xs ! 4 = CHR ''.''" "list_all ?D (drop 5 xs)"
      by (auto simp: technique_format_def)
    then show "s \<in> lang TECHNIQUE_PATTERN"
    proof cases
      case 1
      with s show ?thesis unfolding L by blast
    next
      case 2
      have "xs = take 4 xs @ xs ! 4 # drop (Suc 4) xs"
        using 2(1) by (intro id_take_nth_drop) simp
      then have "xs = take 4 xs @ CHR ''.'' # drop 5 xs" using 2(3) by simp
      moreover have "length (take 4 xs) = 4" "length (drop 5 xs) = 3" using 2(1) by simp_all
      ultimately have "\<exists>ds es. xs = ds @ CHR ''.'' # es \<and> length ds = 4 \<and> list_all ?D ds
          \<and> length es = 3 \<and> list_all ?D es"
        using 2(2,4) by blast
      with s show ?thesis unfolding L by blast
    qed
  next
    assume "s \<in> lang TECHNIQUE_PATTERN"
    then consider ds where "s = CHR ''T'' # ds" "length ds = 4" "list_all ?D ds"
      | ds es where "s = CHR ''T'' # ds @ CHR ''.'' # es" "length ds = 4" "list_all ?D ds"
          "length es = 3" "list_all ?D es"
      unfolding L by blast
    then show "technique_format s"
    proof cases
      case 1
      then show ?thesis by (simp add: technique_format_def)
    next
      case 2
      then show ?thesis by (simp add: technique_format_def nth_append)
    qed
  qed
qed

lemma technique_test:
  "re_match TECHNIQUE_PATTERN s \<longleftrightarrow>
     technique_format s \<or> (s \<noteq> [] \<and> last s = CHR 0x0A \<and> technique_format (butlast s))"
  by (simp add: re_match_def matches_lang technique_format_lang)

lemma generate_attack_pattern_rejects:
  "fst (generate_attack_pattern E st tid name descr) = Inr None \<longleftrightarrow>
     \<not> (technique_format tid
        \<or> (tid \<noteq> [] \<and> last tid = CHR 0x0A \<and> technique_format (butlast tid)))"
proof -
  obtain r s where g: "generate_attack_pattern E st tid name descr = (r, s)"
    by (cases "generate_attack_pattern E st tid name descr")
  have "r = Inr None \<longleftrightarrow> \<not> re_match TECHNIQUE_PATTERN tid"
  proof
    assume "r = Inr None"
    with g show "\<not> re_match TECHNIQUE_PATTERN tid" by (simp add: generate_attack_pattern_None)
  next
    assume "\<not> re_match TECHNIQUE_PATTERN tid"
    then have "generate_attack_pattern E st tid name descr = (Inr None, st)"
      by (simp add: generate_attack_pattern_None)
    with g show "r = Inr None" by simp
  qed
  with g show ?thesis by (simp add: technique_test)
qed

lemma technique_examples:
  "fst (generate_attack_pattern E st ''abc'' name descr) = Inr None"
  "fst (generate_attack_pattern E st ''T12'' name descr) = Inr None"
  "fst (generate_attack_pattern E st ''T12345'' name descr) = Inr None"
  "fst (generate_attack_pattern E st ''T1055'' name descr) \<noteq> Inr None"
  "fst (generate_attack_pattern E st ''T1055.001'' name descr) \<noteq> Inr None"
  unfolding generate_attack_pattern_rejects
  by (simp_all add: technique_format_def digits_def)

lemma attack_pattern_external_id:
  assumes "generate_attack_pattern E st tid name descr = (Inr (Some ap), st1)"
  shows "\<exists>url. obj_prop ap ''external_references'' =
        Some (PList [PDict [(''source_name'', PStr ''mitre-attack''),
                            (''external_id'', PStr tid), (''url'', PStr url)]])"
  using assms by (rule generate_attack_pattern_Some(4))

text \<open>
  Claim C5 at the identifier \<^verbatim>\<open>T1055\<close> followed by a newline. The identifier does not
  have the format of a technique identifier, yet it passes the test of
  \<^verbatim>\<open>generate_attack_pattern\<close>, which does not return \<^verbatim>\<open>None\<close> for it but builds
  the attack pattern.
\<close>

theorem technique_newline_not_rejected:
  "\<not> technique_format (''T1055'' @ [CHR 0x0A])
   \<and> re_match TECHNIQUE_PATTERN (''T1055'' @ [CHR 0x0A])
   \<and> fst (generate_attack_pattern demo_env demo_session (''T1055'' @ [CHR 0x0A]) None None)
       \<noteq> Inr None
   \<and> \<not> isl (fst (generate_attack_pattern demo_env demo_session (''T1055'' @ [CHR 0x0A]) None None))"
proof -
  have f: "\<not> technique_format (''T1055'' @ [CHR 0x0A])"
    by (simp add: technique_format_def digits_def)
  have t: "technique_format ''T1055''"
    by (simp add: technique_format_def digits_def)
  then have m: "re_match TECHNIQUE_PATTERN (''T1055'' @ [CHR 0x0A])"
    by (simp add: technique_test)
  from generate_attack_pattern_returns[OF demo_env_accepts(1)] obtain x st1 where
    r: "generate_attack_pattern demo_env demo_session (''T1055'' @ [CHR 0x0A]) None None
        = (Inr x, st1)" by blast
  have "x \<noteq> None"
  proof
    assume "x = None"
    with r have "generate_attack_pattern demo_env demo_session (''T1055'' @ [CHR 0x0A]) None None
        = (Inr None, st1)" by simp
    from this[unfolded generate_attack_pattern_None]
    have "\<not> re_match TECHNIQUE_PATTERN (''T1055'' @ [CHR 0x0A])" by blast
    with m show False by simp
  qed
  with f m r show ?thesis by simp
qed

section \<open>The graph assembler\<close>

lemma as_dicts_to_dict:
  "\<exists>ds. as_dicts (map to_dict objs) = Some ds \<and> length ds = length objs
     \<and> (\<forall>d\<in>set ds. map_of d ''type'' \<noteq> None \<and> map_of d ''id'' \<noteq> None)"
proof (induction objs)
  case Nil
  show ?case by simp
next
  case (Cons obj objs)
  then obtain ds where "as_dicts (map to_dict objs) = Some ds" "length ds = length objs"
    "\<forall>d\<in>set ds. map_of d ''type'' \<noteq> None \<and> map_of d ''id'' \<noteq> None" by blast
  moreover obtain d where "to_dict obj = PDict d" "map_of d ''type'' \<noteq> None"
    "map_of d ''id'' \<noteq> None"
    by (simp add: to_dict_def)
  ultimately show ?case by simp
qed

lemma validate_loaded:
  "validate_bundle E (Inr (loaded b))
     = Inr (if bundle_objects b = [] then (False, [''Bundle has no objects'']) else (True, []))"
proof (cases "bundle_objects b = []")
  case True
  then have "members (loaded b) = Some []" by (simp add: members_def loaded_def)
  from validate_bundle_members[OF this] True show ?thesis
    by (simp add: bundle_errors_def loaded_def)
next
  case False
  from as_dicts_to_dict[of "bundle_objects b"] obtain ds where
    ds: "as_dicts (map to_dict (bundle_objects b)) = Some ds" "length ds = length (bundle_objects b)"
    "\<forall>d\<in>set ds. map_of d ''type'' \<noteq> None \<and> map_of d ''id'' \<noteq> None" by blast
  with False have m: "members (loaded b) = Some ds" and ne: "ds \<noteq> []"
    by (auto simp: members_def loaded_def)
  from ds(3) have "concat (map (member_errors E) ds) = []"
    by (simp add: member_errors_none)
  with ne have "bundle_errors E (loaded b) ds = []"
    by (simp add: bundle_errors_def loaded_def)
  with validate_bundle_members[OF m] False show ?thesis by simp
qed

text \<open>
  Claim C9, as amended. \<^verbatim>\<open>create_bundle\<close> wraps the object list of the session
  whatever its length: whenever the library accepts the bundle, the call returns a bundle
  holding the list, and raises what the library raises otherwise. For the empty list the
  bundle returned is reported by \<^verbatim>\<open>validate_bundle\<close> as invalid, with the error
  \<^verbatim>\<open>Bundle has no objects\<close>; a bundle of generated objects is reported valid.
\<close>

theorem create_bundle_wraps:
  "(check E ''bundle'' [(''objects'', PList (map to_dict (objects st)))] = None \<longrightarrow>
      (\<exists>b. create_bundle E st = (Inr b, st\<lparr>drawn := Suc (drawn st)\<rparr>)
         \<and> bundle_objects b = objects st
         \<and> validate_bundle E (Inr (loaded b))
            = Inr (if objects st = [] then (False, [''Bundle has no objects''])
                   else (True, []))))
   \<and> (check E ''bundle'' [(''objects'', PList (map to_dict (objects st)))] = Some e
        \<longrightarrow> create_bundle E st = (Inl e, st))"
  by (simp add: create_bundle_def validate_loaded)

theorem create_bundle_wraps_witness:
  "check demo_env ''bundle'' [(''objects'', PList (map to_dict (objects demo_session)))] = None
   \<and> objects demo_session = []
   \<and> \<not> isl (fst (create_bundle demo_env demo_session))
   \<and> validate_bundle demo_env
        (Inr (loaded (projr (fst (create_bundle demo_env demo_session)))))
      = Inr (False, [''Bundle has no objects''])"
proof -
  have c: "check demo_env ''bundle'' [(''objects'', PList (map to_dict (objects demo_session)))]
           = None"
    by (simp add: demo_env_def)
  have o: "objects demo_session = []" by (simp add: demo_session_def)
  from create_bundle_wraps[of demo_env demo_session] c obtain b where
    "create_bundle demo_env demo_session = (Inr b, demo_session\<lparr>drawn := Suc (drawn demo_session)\<rparr>)"
    "validate_bundle demo_env (Inr (loaded b))
      = Inr (if objects demo_session = [] then (False, [''Bundle has no objects''])
             else (True, []))"
    by blast
  with c o show ?thesis by simp
qed

theorem create_bundle_empty_counterexample:
  "objects demo_session = []
   \<and> fst (create_bundle demo_env demo_session)
      = Inr \<lparr>bundle_id = ''bundle--uu'', bundle_objects = []\<rparr>"
  by (simp add: create_bundle_def demo_env_def demo_session_def)

section \<open>References of relationships\<close>

text \<open>
  \<^verbatim>\<open>validate_bundle\<close> looks at the \<^verbatim>\<open>type\<close> and \<^verbatim>\<open>id\<close> of a member only, and takes
  no option: a relationship whose target is not in the bundle is reported valid. The
  check of references belongs to the \<^verbatim>\<open>stix2validator\<close> library, to which
  \<^verbatim>\<open>validate_stix.py\<close> hands the option \<^verbatim>\<open>enforce_refs\<close>.
\<close>

lemma validate_bundle_dangling_reference:
  "validate_bundle E
     (Inr [(''type'', PStr ''bundle''), (''id'', PStr ''bundle--1''),
           (''objects'',
              PList [PDict [(''type'', PStr ''campaign''), (''id'', PStr ''campaign--1'')],
                     PDict [(''type'', PStr ''relationship''), (''id'', PStr ''relationship--1''),
                            (''relationship_type'', PStr ''uses''),
                            (''source_ref'', PStr ''campaign--1''),
                            (''target_ref'', PStr ''malware--absent'')]])])
   = Inr (True, [])"
proof -
  let ?c = "[(''type'', PStr ''campaign''), (''id'', PStr ''campaign--1'')]"
  let ?r = "[(''type'', PStr ''relationship''), (''id'', PStr ''relationship--1''),
             (''relationship_type'', PStr ''uses''),
             (''source_ref'', PStr ''campaign--1''),
             (''target_ref'', PStr ''malware--absent'')]"
  let ?d = "[(''type'', PStr ''bundle''), (''id'', PStr ''bundle--1''),
             (''objects'', PList [PDict ?c, PDict ?r])]"
  have m: "members ?d = Some [?c, ?r]" by (simp add: members_def)
  have "bundle_errors E ?d [?c, ?r] = []"
    by (simp add: bundle_errors_def member_errors_def)
  with validate_bundle_members[OF m] show ?thesis by simp
qed

end
